theory Spec2Isabelle
  imports Main "HOL-Library.Multiset"
begin

section \<open>Data model (backend/models.py)\<close>

text \<open>
  The rows of the Catalog Store. Integer primary keys and positions are naturals; a
  nullable column is an \<open>option\<close>. \<open>u_username\<close> is the join \<open>upload.user.username\<close>
  (the \<open>user_id\<close> foreign key is not nullable), \<open>u_uploaded_ts\<close> is
  \<open>int(upload.uploaded_at.timestamp())\<close>, and \<open>created_at\<close> is a UTC time in
  microseconds. The relationships the models declare are \<open>User.uploads\<close> (backref
  \<open>user\<close>), \<open>Upload.segments\<close> (backref \<open>upload\<close>) and \<open>Playlist.entries\<close> (backref
  \<open>playlist\<close>); a \<open>PlaylistEntry\<close> has its columns and the backref \<open>playlist\<close> only.
\<close>

record upload =
  u_id :: nat
  u_title :: string
  u_username :: string
  u_description :: "string option"
  u_media_type :: string
  u_category :: "string option"
  u_filename :: "string option"
  u_duration :: "int option"
  u_status :: string
  u_uploaded_ts :: int

record segment =
  s_id :: nat
  s_upload_id :: nat
  dj_intro_text :: string
  dj_intro_audio :: "string option"
  position_in_playlist :: "nat option"

record playlist =
  p_id :: nat
  p_name :: string
  p_description :: string
  is_active :: bool
  created_at :: int

record playlist_entry =
  e_id :: nat
  e_playlist_id :: nat
  e_upload_id :: nat
  e_position :: nat

record db =
  uploads :: "upload list"
  segments :: "segment list"
  playlists :: "playlist list"
  entries :: "playlist_entry list"

text \<open>
  The state a call runs in: the unit of work (\<open>session\<close>, what the queries of the call
  read and its pending writes), the committed store (what every other observer reads),
  the file system (path to content), the random generator (the stream of raw draws still
  to come) and the numbers of requests sent so far to the narration and the
  speech-synthesis endpoints of the AI Brain.
\<close>

record state =
  session :: db
  committed :: db
  files :: "string \<rightharpoonup> string"
  rng :: "nat \<Rightarrow> nat"
  ai_requests :: nat
  tts_requests :: nat

datatype error = AttributeError | ValueError | GenerationFailed string

type_synonym 'a result = "error + 'a"

section \<open>Store and file-system primitives\<close>

definition commit :: "state \<Rightarrow> state" where
  "commit st = st\<lparr>committed := session st\<rparr>"

definition get_playlist :: "db \<Rightarrow> nat \<Rightarrow> playlist option" where
  "get_playlist d i = find (\<lambda>p. p_id p = i) (playlists d)"

definition get_upload :: "db \<Rightarrow> nat \<Rightarrow> upload option" where
  "get_upload d i = find (\<lambda>u. u_id u = i) (uploads d)"

definition first_segment :: "db \<Rightarrow> nat \<Rightarrow> segment option" where
  \<comment> \<open>\<open>Segment.query.filter_by(upload_id=i).first()\<close>\<close>
  "first_segment d i = find (\<lambda>s. s_upload_id s = i) (segments d)"

definition playlist_entries :: "db \<Rightarrow> nat \<Rightarrow> playlist_entry list" where
  \<comment> \<open>the relationship \<open>playlist.entries\<close>\<close>
  "playlist_entries d i = filter (\<lambda>e. e_playlist_id e = i) (entries d)"

definition set_active :: "nat \<Rightarrow> bool \<Rightarrow> state \<Rightarrow> state" where
  \<comment> \<open>\<open>row.is_active = b\<close> on the row of the session with primary key \<open>i\<close>\<close>
  "set_active i b st =
     st\<lparr>session := (session st)\<lparr>playlists :=
        map (\<lambda>p. if p_id p = i then p\<lparr>is_active := b\<rparr> else p) (playlists (session st))\<rparr>\<rparr>"

definition path_exists :: "state \<Rightarrow> string \<Rightarrow> bool" where
  "path_exists st p = (files st p \<noteq> None)"

definition open_w :: "string \<Rightarrow> state \<Rightarrow> state" where
  \<comment> \<open>\<open>open(path, 'w')\<close>: creates the file or truncates it\<close>
  "open_w path st = st\<lparr>files := (files st)(path \<mapsto> [])\<rparr>"

definition f_write :: "string \<Rightarrow> string \<Rightarrow> state \<Rightarrow> state" where
  \<comment> \<open>\<open>f.write(s)\<close> on the file opened at \<open>path\<close>\<close>
  "f_write path s st =
     st\<lparr>files := (files st)(path \<mapsto> (case files st path of None \<Rightarrow> s | Some c \<Rightarrow> c @ s))\<rparr>"

definition nl :: string where
  "nl = [CHR 0x0A]"

definition path_join :: "string \<Rightarrow> string \<Rightarrow> string" where
  "path_join dir name = dir @ ''/'' @ name"

fun show_nat :: "nat \<Rightarrow> string" where
  "show_nat n =
     (if n < 10 then [char_of (48 + n)] else show_nat (n div 10) @ [char_of (48 + n mod 10)])"

definition show_int :: "int \<Rightarrow> string" where
  "show_int i = (if i < 0 then ''-'' @ show_nat (nat (- i)) else show_nat (nat i))"

section \<open>PlaylistManager: export and activation (backend/scheduler.py)\<close>

definition playlist_dir :: string where
  "playlist_dir = ''/Users/basil_jackson/Documents/ai_radio/media/playlists''"

definition m3u_path_of :: "nat \<Rightarrow> string" where
  "m3u_path_of playlist_id =
     path_join playlist_dir (''playlist_'' @ show_nat playlist_id @ ''.m3u'')"

definition intro_playable :: "state \<Rightarrow> segment option \<Rightarrow> bool" where
  \<comment> \<open>\<open>segment and segment.dj_intro_audio and os.path.exists(segment.dj_intro_audio)\<close>\<close>
  "intro_playable st seg =
     (case seg of None \<Rightarrow> False
      | Some s \<Rightarrow> (case dj_intro_audio s of None \<Rightarrow> False
                  | Some a \<Rightarrow> a \<noteq> [] \<and> path_exists st a))"

definition content_present :: "state \<Rightarrow> upload \<Rightarrow> bool" where
  \<comment> \<open>\<open>upload.filename and os.path.exists(upload.filename)\<close>\<close>
  "content_present st u =
     (case u_filename u of None \<Rightarrow> False | Some fn \<Rightarrow> fn \<noteq> [] \<and> path_exists st fn)"

definition duration_or_unknown :: "upload \<Rightarrow> int" where
  \<comment> \<open>\<open>upload.duration or -1\<close>: a null and a zero duration both give \<open>-1\<close>\<close>
  "duration_or_unknown u = (case u_duration u of None \<Rightarrow> - 1 | Some d \<Rightarrow> if d = 0 then - 1 else d)"

definition write_intro :: "string \<Rightarrow> upload \<Rightarrow> segment option \<Rightarrow> state \<Rightarrow> state" where
  "write_intro f u seg st =
     (if intro_playable st seg
      then f_write f (the (dj_intro_audio (the seg)) @ nl)
             (f_write f (''#EXTINF:-1,DJ Intro - '' @ u_title u @ nl) st)
      else st)"

definition write_content :: "string \<Rightarrow> upload \<Rightarrow> state \<Rightarrow> state" where
  "write_content f u st =
     (if content_present st u
      then f_write f (the (u_filename u) @ nl)
             (f_write f (''#EXTINF:'' @ show_int (duration_or_unknown u) @ '','' @ u_title u
                         @ '' - '' @ u_username u @ nl) st)
      else st)"

definition entry_upload :: "db \<Rightarrow> playlist_entry \<Rightarrow> upload result" where
  \<comment> \<open>\<open>entry.upload\<close>: models.py gives \<open>PlaylistEntry\<close> the column \<open>upload_id\<close> and no
      relationship named \<open>upload\<close> (neither its own nor a backref of \<open>Upload\<close>), so the
      attribute access raises \<open>AttributeError\<close> for every entry, whatever the store holds\<close>
  "entry_upload d entry = Inl AttributeError"

fun export_entries :: "string \<Rightarrow> playlist_entry list \<Rightarrow> state \<Rightarrow> unit result \<times> state" where
  "export_entries f [] st = (Inr (), st)"
| "export_entries f (entry # rest) st =
     (case entry_upload (session st) entry of
        Inl e \<Rightarrow> (Inl e, st)
      | Inr u \<Rightarrow>
          export_entries f rest
            (write_content f u (write_intro f u (first_segment (session st) (u_id u)) st)))"

definition export_playlist_to_m3u :: "nat \<Rightarrow> state \<Rightarrow> string option result \<times> state" where
  "export_playlist_to_m3u playlist_id st =
     (case get_playlist (session st) playlist_id of
        None \<Rightarrow> (Inr None, st)
      | Some pl \<Rightarrow>
          (let m3u_path = m3u_path_of playlist_id;
               st1 = f_write m3u_path (''#EXTM3U'' @ nl) (open_w m3u_path st)
           in case export_entries m3u_path
                     (sort_key e_position (playlist_entries (session st) playlist_id)) st1 of
                (Inl e, st2) \<Rightarrow> (Inl e, st2)
              | (Inr u, st2) \<Rightarrow> (Inr (Some m3u_path), st2)))"

definition update_streaming_playlist :: "string \<Rightarrow> state \<Rightarrow> state" where
  \<comment> \<open>\<open>cp m3u_path current.m3u\<close>; a failing copy is caught and only printed\<close>
  "update_streaming_playlist m3u_path st =
     (case files st m3u_path of
        None \<Rightarrow> st
      | Some c \<Rightarrow> st\<lparr>files := (files st)(path_join playlist_dir ''current.m3u'' \<mapsto> c)\<rparr>)"

definition deactivate_current :: "state \<Rightarrow> state" where
  \<comment> \<open>lines 168-170: \<open>current = Playlist.query.filter_by(is_active=True).first()\<close>,
      and \<open>current.is_active = False\<close> when there is one\<close>
  "deactivate_current st =
     (case find is_active (playlists (session st)) of
        None \<Rightarrow> st
      | Some current \<Rightarrow> set_active (p_id current) False st)"

definition activate_swap :: "nat \<Rightarrow> state \<Rightarrow> state" where
  \<comment> \<open>lines 168-176 on the path where the playlist exists: deactivate the current
      holder, activate the new playlist, commit\<close>
  "activate_swap playlist_id st = commit (set_active playlist_id True (deactivate_current st))"

definition activate_playlist_run :: "nat \<Rightarrow> state \<Rightarrow> bool result \<times> state list" where
  \<comment> \<open>the call, with the states it goes through: one after each statement whose effect
      is visible outside the unit of work (the commit of line 176, the export of line
      179, the copy of line 181); the last one is the state the call ends in\<close>
  "activate_playlist_run playlist_id st =
     (let st1 = deactivate_current st
      in case get_playlist (session st1) playlist_id of
           None \<Rightarrow> (Inr False, [st1])
         | Some new_playlist \<Rightarrow>
             (let st2 = commit (set_active playlist_id True st1)
              in case export_playlist_to_m3u playlist_id st2 of
                   (Inl e, st3) \<Rightarrow> (Inl e, [st2, st3])
                 | (Inr None, st3) \<Rightarrow> (Inr True, [st2, st3])
                 | (Inr (Some m3u_path), st3) \<Rightarrow>
                     (Inr True, [st2, st3, update_streaming_playlist m3u_path st3])))"

definition activate_playlist :: "nat \<Rightarrow> state \<Rightarrow> bool result \<times> state" where
  "activate_playlist playlist_id st =
     (case activate_playlist_run playlist_id st of (r, states) \<Rightarrow> (r, last states))"

definition activate_playlist_trace :: "nat \<Rightarrow> state \<Rightarrow> state list" where
  "activate_playlist_trace playlist_id st = snd (activate_playlist_run playlist_id st)"

section \<open>The outside world\<close>

text \<open>
  What a call cannot decide itself: the clocks, and what the AI Brain answers. The
  \<open>n\<close>-th request to the narration endpoint is answered by \<open>ai_brain ev n\<close>, the
  \<open>n\<close>-th request to the speech endpoint by \<open>tts_brain ev n\<close> (the decoded audio, or
  \<open>None\<close> when synthesis failed), so that two calls in sequence may be answered
  differently. The clocks are read once per call.
\<close>

record datetime =
  dt_year :: nat
  dt_month :: nat
  dt_day :: nat
  dt_hour :: nat
  dt_minute :: nat
  dt_second :: nat

datatype ai_reply =
    Failed    \<comment> \<open>\<open>call_ai_brain\<close> returned \<open>None\<close>: time-out, connection error, status not 200\<close>
  | NoText    \<comment> \<open>a JSON object without the key \<open>text\<close>\<close>
  | Text string
  | BadText   \<comment> \<open>\<open>text\<close> is not a string: \<open>.strip()\<close> raises inside the \<open>try\<close>\<close>

record env =
  utcnow :: int
  now :: datetime
  ai_brain :: "nat \<Rightarrow> ai_reply"
  tts_brain :: "nat \<Rightarrow> string option"

definition pad2 :: "nat \<Rightarrow> string" where
  "pad2 n = (if n < 10 then ''0'' @ show_nat n else show_nat n)"

definition month_name :: "nat \<Rightarrow> string" where
  "month_name m =
     (if m = 1 then ''January'' else if m = 2 then ''February'' else if m = 3 then ''March''
      else if m = 4 then ''April'' else if m = 5 then ''May'' else if m = 6 then ''June''
      else if m = 7 then ''July'' else if m = 8 then ''August'' else if m = 9 then ''September''
      else if m = 10 then ''October'' else if m = 11 then ''November'' else ''December'')"

definition strftime_ymd :: "datetime \<Rightarrow> string" where
  \<comment> \<open>\<open>%Y-%m-%d\<close>\<close>
  "strftime_ymd d = show_nat (dt_year d) @ ''-'' @ pad2 (dt_month d) @ ''-'' @ pad2 (dt_day d)"

definition strftime_long :: "datetime \<Rightarrow> string" where
  \<comment> \<open>\<open>%B %d, %Y\<close>\<close>
  "strftime_long d = month_name (dt_month d) @ '' '' @ pad2 (dt_day d) @ '', '' @ show_nat (dt_year d)"

definition strftime_stamp :: "datetime \<Rightarrow> string" where
  \<comment> \<open>\<open>%Y%m%d_%H%M%S\<close>\<close>
  "strftime_stamp d =
     show_nat (dt_year d) @ pad2 (dt_month d) @ pad2 (dt_day d) @ ''_''
       @ pad2 (dt_hour d) @ pad2 (dt_minute d) @ pad2 (dt_second d)"

section \<open>The random module\<close>

text \<open>
  \<open>rng st\<close> is the stream of raw draws to come; \<open>randbelow(n)\<close> is the next draw modulo
  \<open>n\<close>. \<open>sample\<close> is CPython's pool algorithm (draw an index of the live pool, take
  that element, move the last live element into its place; for a population much larger
  than \<open>k\<close> CPython remembers the indices drawn instead, and returns \<open>k\<close> elements at
  distinct positions all the same), \<open>shuffle\<close> its Fisher-Yates loop
  \<open>for i in reversed(range(1, len(x)))\<close>, \<open>choice\<close> is \<open>seq[randbelow(len(seq))]\<close>.
\<close>

definition shift :: "nat \<Rightarrow> (nat \<Rightarrow> nat) \<Rightarrow> (nat \<Rightarrow> nat)" where
  "shift k r = (\<lambda>i. r (i + k))"

fun sample_loop :: "(nat \<Rightarrow> nat) \<Rightarrow> 'a list \<Rightarrow> nat \<Rightarrow> 'a list" where
  "sample_loop r pool 0 = []"
| "sample_loop r pool (Suc k) =
     (let j = r 0 mod length pool
      in pool ! j # sample_loop (shift 1 r) (butlast (pool[j := last pool])) k)"

definition sample :: "'a list \<Rightarrow> nat \<Rightarrow> state \<Rightarrow> 'a list result \<times> state" where
  "sample population k st =
     (if length population < k then (Inl ValueError, st)
      else (Inr (sample_loop (rng st) population k), st\<lparr>rng := shift k (rng st)\<rparr>))"

fun shuffle_loop :: "(nat \<Rightarrow> nat) \<Rightarrow> nat \<Rightarrow> 'a list \<Rightarrow> 'a list" where
  "shuffle_loop r 0 x = x"
| "shuffle_loop r (Suc i) x =
     (let j = r 0 mod (Suc i + 1)
      in shuffle_loop (shift 1 r) i (x[Suc i := x ! j, j := x ! Suc i]))"

definition shuffle :: "'a list \<Rightarrow> state \<Rightarrow> 'a list \<times> state" where
  "shuffle x st =
     (shuffle_loop (rng st) (length x - 1) x, st\<lparr>rng := shift (length x - 1) (rng st)\<rparr>)"

definition choice :: "'a list \<Rightarrow> state \<Rightarrow> 'a \<times> state" where
  "choice seq st = (seq ! (rng st 0 mod length seq), st\<lparr>rng := shift 1 (rng st)\<rparr>)"

section \<open>PlaylistManager.create_daily_playlist\<close>

definition approved :: "db \<Rightarrow> string \<Rightarrow> upload list" where
  \<comment> \<open>\<open>Upload.query.filter_by(status='approved', media_type=mt).all()\<close>\<close>
  "approved d mt = filter (\<lambda>u. u_status u = ''approved'' \<and> u_media_type u = mt) (uploads d)"

definition next_id :: "nat list \<Rightarrow> nat" where
  \<comment> \<open>the primary key an insert gets: beyond every key of the table\<close>
  "next_id ids = Suc (fold max ids 0)"

definition total_slots :: nat where
  "total_slots = 50"

definition audio_slots :: nat where
  \<comment> \<open>\<open>int(total_slots * 0.7)\<close>, which is 35\<close>
  "audio_slots = total_slots * 7 div 10"

definition video_slots :: nat where
  "video_slots = total_slots - audio_slots"

fun add_entries :: "nat \<Rightarrow> nat \<Rightarrow> upload list \<Rightarrow> db \<Rightarrow> db" where
  \<comment> \<open>\<open>for position, upload in enumerate(selected_content)\<close>, from \<open>position\<close> on\<close>
  "add_entries playlist_id position [] d = d"
| "add_entries playlist_id position (u # rest) d =
     add_entries playlist_id (Suc position) rest
       (d\<lparr>entries := entries d @
            [\<lparr>e_id = next_id (map e_id (entries d)), e_playlist_id = playlist_id,
              e_upload_id = u_id u, e_position = position\<rparr>]\<rparr>)"

definition select_content ::
  "upload list \<Rightarrow> upload list \<Rightarrow> state \<Rightarrow> upload list result \<times> state" where
  \<comment> \<open>lines 57-76: the audio picks, then the video picks, then the shuffle of both\<close>
  "select_content audio_content video_content st =
     (case (if audio_content \<noteq> []
            then sample audio_content (min audio_slots (length audio_content)) st
            else (Inr [], st)) of
        (Inl e, st2) \<Rightarrow> (Inl e, st2)
      | (Inr audio_picks, st2) \<Rightarrow>
          (case (if video_content \<noteq> []
                 then sample video_content (min video_slots (length video_content)) st2
                 else (Inr [], st2)) of
             (Inl e, st3) \<Rightarrow> (Inl e, st3)
           | (Inr video_picks, st3) \<Rightarrow>
               (case shuffle (audio_picks @ video_picks) st3 of
                  (selected_content, st4) \<Rightarrow> (Inr selected_content, st4))))"

definition new_playlist :: "env \<Rightarrow> datetime \<Rightarrow> state \<Rightarrow> playlist" where
  \<comment> \<open>lines 42-50: the inactive playlist of the day, with the key the flush gives it\<close>
  "new_playlist ev date st =
     \<lparr>p_id = next_id (map p_id (playlists (session st))),
      p_name = ''Daily Mix - '' @ strftime_ymd date,
      p_description = ''AI-curated daily playlist for '' @ strftime_long date,
      is_active = False, created_at = utcnow ev\<rparr>"

definition create_daily_playlist ::
  "env \<Rightarrow> datetime option \<Rightarrow> state \<Rightarrow> playlist option result \<times> state" where
  "create_daily_playlist ev date_arg st =
     (let date = (case date_arg of None \<Rightarrow> now ev | Some d \<Rightarrow> d);
          audio_content = approved (session st) ''audio'';
          video_content = approved (session st) ''video''
      in if audio_content = [] \<and> video_content = [] then (Inr None, st)
         else
           (let pl = new_playlist ev date st;
                st1 = st\<lparr>session := (session st)\<lparr>playlists := playlists (session st) @ [pl]\<rparr>\<rparr>
            in case select_content audio_content video_content st1 of
                 (Inl e, st4) \<Rightarrow> (Inl e, st4)
               | (Inr selected_content, st4) \<Rightarrow>
                   (Inr (Some pl),
                    commit (st4\<lparr>session :=
                              add_entries (p_id pl) 0 selected_content (session st4)\<rparr>))))"

section \<open>AIHost and TTSHandler (backend/ai_generator.py)\<close>

text \<open>
  A metadata dictionary maps a key to its value, \<open>Some None\<close> being Python's \<open>None\<close>
  stored under the key; \<open>md_get\<close> is \<open>metadata.get(key, default)\<close> as an f-string
  prints it. An intro is the dictionary with the keys \<open>text\<close> and \<open>personality\<close>.
\<close>

type_synonym metadata = "string \<rightharpoonup> string option"

record intro =
  i_text :: string
  i_personality :: string

definition md_get :: "metadata \<Rightarrow> string \<Rightarrow> string \<Rightarrow> string" where
  "md_get md k dflt = (case md k of None \<Rightarrow> dflt | Some None \<Rightarrow> ''None'' | Some (Some v) \<Rightarrow> v)"

definition isspace :: "char \<Rightarrow> bool" where
  \<comment> \<open>the ASCII characters \<open>str.isspace\<close> accepts; a \<open>string\<close> here is a sequence of
      bytes, and the white space beyond ASCII that Python strips too (U+0085, U+00A0 and
      the Unicode spaces) is not told apart from text\<close>
  "isspace c = (let n = (of_char c :: nat) in (9 \<le> n \<and> n \<le> 13) \<or> (28 \<le> n \<and> n \<le> 32))"

definition strip :: "string \<Rightarrow> string" where
  "strip s = rev (dropWhile isspace (rev (dropWhile isspace s)))"

definition personalities_for :: "nat \<Rightarrow> string list" where
  \<comment> \<open>the time-of-day buckets of \<open>select_personality\<close>: morning, midday, afternoon,
      evening and night\<close>
  "personalities_for hour =
     (if 6 \<le> hour \<and> hour < 10 then [''energetic'', ''professional'']
      else if 10 \<le> hour \<and> hour < 16 then [''professional'', ''chill'']
      else if 16 \<le> hour \<and> hour < 20 then [''energetic'', ''quirky'']
      else [''chill'', ''quirky''])"

definition select_personality :: "env \<Rightarrow> nat option \<Rightarrow> state \<Rightarrow> string \<times> state" where
  "select_personality ev time_of_day st =
     (let hour = (case time_of_day of None \<Rightarrow> dt_hour (now ev)
                  | Some h \<Rightarrow> if h = 0 then dt_hour (now ev) else h)
      in choice (personalities_for hour) st)"

definition professional_template :: "metadata \<Rightarrow> string" where
  "professional_template md =
     ''Coming up now, we have '' @ md_get md ''title'' ''a new piece'' @ '' created by ''
       @ md_get md ''username'' ''one of our contributors''
       @ ''. This AI-generated content showcases the creative potential of artificial intelligence.''"

definition templates :: "metadata \<Rightarrow> (string \<times> string) list" where
  "templates md =
     [(''energetic'',
         ''Hey there! Here's something awesome - '' @ md_get md ''title'' ''this track''
           @ '' created by '' @ md_get md ''username'' ''one of our AI creators''
           @ ''! Let's dive in!''),
      (''chill'',
         ''Here's a nice piece for you - '' @ md_get md ''title'' ''this content''
           @ '' from '' @ md_get md ''username'' ''our community''
           @ ''. Enjoy this AI-generated creation.''),
      (''professional'', professional_template md),
      (''quirky'',
         ''Beep boop! The AI overlords present '' @ md_get md ''title'' ''this fantastic creation''
           @ '' by '' @ md_get md ''username'' ''a fellow AI enthusiast''
           @ ''. Prepare for artificial awesomeness!'')]"

definition generate_fallback_intro :: "metadata \<Rightarrow> string \<Rightarrow> intro" where
  \<comment> \<open>\<open>templates.get(personality, templates['professional'])\<close>\<close>
  "generate_fallback_intro md personality =
     \<lparr>i_text = (case map_of (templates md) personality of
                  None \<Rightarrow> professional_template md | Some t \<Rightarrow> t),
      i_personality = personality\<rparr>"

definition call_ai_brain :: "env \<Rightarrow> state \<Rightarrow> ai_reply \<times> state" where
  "call_ai_brain ev st = (ai_brain ev (ai_requests st), st\<lparr>ai_requests := Suc (ai_requests st)\<rparr>)"

definition generate_intro :: "env \<Rightarrow> metadata \<Rightarrow> state \<Rightarrow> intro option \<times> state" where
  \<comment> \<open>every path returns a dictionary; the exception of \<open>BadText\<close> is caught by the
      \<open>except\<close> clause, which falls back with the professional personality\<close>
  "generate_intro ev md st =
     (let (personality_name, st1) = select_personality ev None st;
          (response, st2) = call_ai_brain ev st1
      in case response of
           Text t \<Rightarrow> (Some \<lparr>i_text = strip t, i_personality = personality_name\<rparr>, st2)
         | BadText \<Rightarrow> (Some (generate_fallback_intro md ''professional''), st2)
         | Failed \<Rightarrow> (Some (generate_fallback_intro md personality_name), st2)
         | NoText \<Rightarrow> (Some (generate_fallback_intro md personality_name), st2))"

definition media_folder :: string where
  "media_folder = ''/Users/basil_jackson/Documents/ai_radio/media''"

definition generate_audio :: "env \<Rightarrow> string \<Rightarrow> string \<Rightarrow> state \<Rightarrow> string option \<times> state" where
  "generate_audio ev txt output_filename st =
     (let output_path = path_join (path_join media_folder ''dj_intros'') (output_filename @ ''.mp3'');
          st1 = st\<lparr>tts_requests := Suc (tts_requests st)\<rparr>
      in case tts_brain ev (tts_requests st) of
           None \<Rightarrow> (None, st1)
         | Some audio_data \<Rightarrow>
             (Some output_path, st1\<lparr>files := (files st1)(output_path \<mapsto> audio_data)\<rparr>))"

definition metadata_of :: "upload \<Rightarrow> metadata" where
  "metadata_of u =
     [''title'' \<mapsto> Some (u_title u), ''username'' \<mapsto> Some (u_username u),
      ''media_type'' \<mapsto> Some (u_media_type u), ''description'' \<mapsto> u_description u,
      ''category'' \<mapsto> u_category u]"

definition add_segment :: "segment \<Rightarrow> state \<Rightarrow> state" where
  "add_segment seg st = st\<lparr>session := (session st)\<lparr>segments := segments (session st) @ [seg]\<rparr>\<rparr>"

section \<open>PlaylistManager.generate_playlist_segments\<close>

definition ensure_segment :: "env \<Rightarrow> playlist_entry \<Rightarrow> upload \<Rightarrow> state \<Rightarrow> state" where
  \<comment> \<open>lines 99-132, the body of the loop for one entry, were \<open>entry.upload\<close> to give
      its upload\<close>
  "ensure_segment ev entry u st =
     (case first_segment (session st) (u_id u) of
        Some existing_segment \<Rightarrow> st
      | None \<Rightarrow>
          (let (intro_result, st1) = generate_intro ev (metadata_of u) st
           in case intro_result of
                None \<Rightarrow> st1
              | Some intro_r \<Rightarrow>
                  (let (audio_path, st2) =
                         generate_audio ev (i_text intro_r)
                           (''intro_'' @ show_nat (u_id u) @ ''_'' @ strftime_stamp (now ev)) st1
                   in add_segment
                        \<lparr>s_id = next_id (map s_id (segments (session st2))),
                         s_upload_id = u_id u, dj_intro_text = i_text intro_r,
                         dj_intro_audio = audio_path,
                         position_in_playlist = Some (e_position entry)\<rparr> st2)))"

fun segments_loop :: "env \<Rightarrow> playlist_entry list \<Rightarrow> state \<Rightarrow> unit result \<times> state" where
  "segments_loop ev [] st = (Inr (), st)"
| "segments_loop ev (entry # rest) st =
     (case entry_upload (session st) entry of
        Inl e \<Rightarrow> (Inl e, st)
      | Inr u \<Rightarrow> segments_loop ev rest (ensure_segment ev entry u st))"

definition generate_playlist_segments :: "env \<Rightarrow> nat \<Rightarrow> state \<Rightarrow> bool result \<times> state" where
  "generate_playlist_segments ev playlist_id st =
     (case get_playlist (session st) playlist_id of
        None \<Rightarrow> (Inr False, st)
      | Some pl \<Rightarrow>
          (case segments_loop ev (playlist_entries (session st) playlist_id) st of
             (Inl e, st1) \<Rightarrow> (Inl e, st1)
           | (Inr u, st1) \<Rightarrow> (Inr True, commit st1)))"

section \<open>The task generate_dj_intro (backend/celery_tasks.py)\<close>

datatype task_result =
    Success nat string string   \<comment> \<open>segment id, the text shown, personality\<close>
  | Skipped string
  | TaskError string

definition message :: "error \<Rightarrow> string" where
  "message e = (case e of GenerationFailed m \<Rightarrow> m | AttributeError \<Rightarrow> ''AttributeError''
                | ValueError \<Rightarrow> ''ValueError'')"

definition app_context :: "state \<Rightarrow> state" where
  \<comment> \<open>entering or leaving \<open>app.app_context()\<close>: the unit of work is fresh, pending writes
      are gone\<close>
  "app_context st = st\<lparr>session := committed st\<rparr>"

definition generate_dj_intro_body :: "env \<Rightarrow> nat \<Rightarrow> state \<Rightarrow> task_result result \<times> state" where
  \<comment> \<open>lines 61-114, the body of the \<open>try\<close>\<close>
  "generate_dj_intro_body ev upload_id st0 =
     (let st = app_context st0
      in case get_upload (session st) upload_id of
           None \<Rightarrow> (Inr (TaskError ''Upload not found''), app_context st)
         | Some u \<Rightarrow>
             (case first_segment (session st) upload_id of
                Some existing_segment \<Rightarrow> (Inr (Skipped ''Intro already exists''), app_context st)
              | None \<Rightarrow>
                  (let (intro_result, st1) = generate_intro ev (metadata_of u) st
                   in case intro_result of
                        None \<Rightarrow>
                          (Inl (GenerationFailed ''Failed to generate intro text''), app_context st1)
                      | Some intro_r \<Rightarrow>
                          (let (audio_path, st2) =
                                 generate_audio ev (i_text intro_r)
                                   (''intro_'' @ show_nat upload_id @ ''_'' @ show_int (u_uploaded_ts u))
                                   st1
                           in case audio_path of
                                None \<Rightarrow>
                                  (Inl (GenerationFailed ''Failed to generate intro audio''),
                                   app_context st2)
                              | Some path \<Rightarrow>
                                  (let seg = \<lparr>s_id = next_id (map s_id (segments (session st2))),
                                              s_upload_id = upload_id,
                                              dj_intro_text = i_text intro_r,
                                              dj_intro_audio = Some path,
                                              position_in_playlist = None\<rparr>;
                                       st3 = commit (add_segment seg st2)
                                   in (Inr (Success (s_id seg) (take 100 (i_text intro_r) @ ''...'')
                                              (i_personality intro_r)),
                                       app_context st3))))))"

definition max_retries :: nat where
  "max_retries = 3"

function generate_dj_intro :: "env \<Rightarrow> nat \<Rightarrow> nat \<Rightarrow> state \<Rightarrow> task_result \<times> state" where
  \<comment> \<open>the task with its retries: \<open>retries\<close> is \<open>self.request.retries\<close>; a retry runs the
      task again (after \<open>2 ** retries\<close> seconds)\<close>
  "generate_dj_intro ev retries upload_id st =
     (case generate_dj_intro_body ev upload_id st of
        (Inr r, st1) \<Rightarrow> (r, st1)
      | (Inl e, st1) \<Rightarrow>
          if retries < max_retries then generate_dj_intro ev (Suc retries) upload_id st1
          else (TaskError (message e), st1))"
  by pat_completeness auto
termination
  by (relation "measure (\<lambda>(ev, retries, upload_id, st). max_retries - retries)") auto

section \<open>SchedulerService\<close>

definition run_daily_scheduling :: "env \<Rightarrow> state \<Rightarrow> playlist option \<times> state" where
  \<comment> \<open>any exception is caught, printed and turned into \<open>None\<close>\<close>
  "run_daily_scheduling ev st =
     (case create_daily_playlist ev (Some (now ev)) st of
        (Inl e, st1) \<Rightarrow> (None, st1)
      | (Inr None, st1) \<Rightarrow> (None, st1)
      | (Inr (Some pl), st1) \<Rightarrow>
          (case generate_playlist_segments ev (p_id pl) st1 of
             (Inl e, st2) \<Rightarrow> (None, st2)
           | (Inr b, st2) \<Rightarrow>
               (case activate_playlist (p_id pl) st2 of
                  (Inl e, st3) \<Rightarrow> (None, st3)
                | (Inr b', st3) \<Rightarrow> (Some pl, st3))))"

fun cleanup_loop :: "playlist list \<Rightarrow> state \<Rightarrow> state" where
  "cleanup_loop [] st = st"
| "cleanup_loop (pl # rest) st =
     (let m3u_path = m3u_path_of (p_id pl);
          st1 = (if path_exists st m3u_path then st\<lparr>files := (files st)(m3u_path := None)\<rparr> else st);
          st2 = st1\<lparr>session := (session st1)\<lparr>entries :=
                  filter (\<lambda>e. e_playlist_id e \<noteq> p_id pl) (entries (session st1))\<rparr>\<rparr>;
          st3 = st2\<lparr>session := (session st2)\<lparr>playlists :=
                  filter (\<lambda>q. p_id q \<noteq> p_id pl) (playlists (session st2))\<rparr>\<rparr>
      in cleanup_loop rest st3)"

definition microseconds_per_day :: int where
  "microseconds_per_day = 86400000000"

definition expired :: "env \<Rightarrow> int \<Rightarrow> playlist \<Rightarrow> bool" where
  \<comment> \<open>the filter of the query: \<open>created_at < cutoff_date\<close> and \<open>is_active == False\<close>, with
      \<open>cutoff_date = datetime.utcnow() - timedelta(days=days_to_keep)\<close>\<close>
  "expired ev days_to_keep p =
     (let cutoff_date = utcnow ev - days_to_keep * microseconds_per_day
      in created_at p < cutoff_date \<and> is_active p = False)"

definition cleanup_old_playlists :: "env \<Rightarrow> int \<Rightarrow> state \<Rightarrow> nat \<times> state" where
  \<comment> \<open>returns the number of playlists it reports as cleaned up\<close>
  "cleanup_old_playlists ev days_to_keep st =
     (let old_playlists = filter (expired ev days_to_keep) (playlists (session st))
      in (length old_playlists, commit (cleanup_loop old_playlists st)))"

definition days_to_keep_default :: int where
  "days_to_keep_default = 7"

section \<open>Observers\<close>

text \<open>
  What another reader of the Catalog Store sees of a playlist: it is marked active when
  the committed store has it so.
\<close>

definition marked_active :: "state \<Rightarrow> nat \<Rightarrow> bool" where
  "marked_active st i = list_ex (\<lambda>p. p_id p = i \<and> is_active p) (playlists (committed st))"

definition entries_of_type :: "db \<Rightarrow> nat \<Rightarrow> string \<Rightarrow> playlist_entry list" where
  \<comment> \<open>the entries of a playlist whose upload has the media type \<open>mt\<close>\<close>
  "entries_of_type d i mt =
     filter (\<lambda>e. case get_upload d (e_upload_id e) of None \<Rightarrow> False
                 | Some u \<Rightarrow> u_media_type u = mt) (playlist_entries d i)"

section \<open>A concrete station\<close>

definition demo_upload :: "nat \<Rightarrow> string \<Rightarrow> string option \<Rightarrow> upload" where
  "demo_upload i mt fn =
     \<lparr>u_id = i, u_title = ''Song'', u_username = ''ada'', u_description = None,
      u_media_type = mt, u_category = None, u_filename = fn, u_duration = Some 180,
      u_status = ''approved'', u_uploaded_ts = 17\<rparr>"

definition demo_db :: db where
  "demo_db =
     \<lparr>uploads = [demo_upload 1 ''audio'' (Some ''/m/a.mp3''),
                 demo_upload 2 ''video'' (Some ''/m/b.mp4''),
                 demo_upload 3 ''audio'' None],
      segments = [],
      playlists = [\<lparr>p_id = 1, p_name = ''old'', p_description = [], is_active = True,
                     created_at = 0\<rparr>,
                   \<lparr>p_id = 2, p_name = ''new'', p_description = [], is_active = False,
                     created_at = 5\<rparr>],
      entries = [\<lparr>e_id = 1, e_playlist_id = 2, e_upload_id = 1, e_position = 1\<rparr>,
                 \<lparr>e_id = 2, e_playlist_id = 2, e_upload_id = 2, e_position = 0\<rparr>]\<rparr>"

definition demo_state :: state where
  "demo_state =
     \<lparr>session = demo_db, committed = demo_db, files = [''/m/a.mp3'' \<mapsto> ''x''],
      rng = (\<lambda>i. i * 7 + 3), ai_requests = 0, tts_requests = 0\<rparr>"

definition demo_env :: env where
  \<comment> \<open>an AI Brain that is down: every narration request and every synthesis fails\<close>
  "demo_env =
     \<lparr>utcnow = 1000,
      now = \<lparr>dt_year = 2026, dt_month = 11, dt_day = 3, dt_hour = 7, dt_minute = 5,
              dt_second = 9\<rparr>,
      ai_brain = (\<lambda>n. Failed), tts_brain = (\<lambda>n. None)\<rparr>"

definition demo_env_up :: env where
  \<comment> \<open>an AI Brain that answers: narration text and synthesized audio for every request\<close>
  "demo_env_up = demo_env\<lparr>ai_brain := (\<lambda>n. Text ''  Hello from the AI DJ!  ''),
                           tts_brain := (\<lambda>n. Some ''mp3'')\<rparr>"

definition garbled :: env where
  \<comment> \<open>an AI Brain, at five in the afternoon, whose narration reply carries a \<open>text\<close> that
      is not a string\<close>
  "garbled = demo_env\<lparr>now := (now demo_env)\<lparr>dt_hour := 17\<rparr>, ai_brain := (\<lambda>n. BadText)\<rparr>"

definition forty_audio :: state where
  \<comment> \<open>a station with 40 approved audio items, no video and no playlist yet\<close>
  "forty_audio =
     (let d = \<lparr>uploads = map (\<lambda>i. demo_upload i ''audio'' (Some ''/m/a.mp3'')) [1..<41],
               segments = [], playlists = [], entries = []\<rparr>
      in demo_state\<lparr>session := d, committed := d\<rparr>)"

definition silent :: state where
  \<comment> \<open>a station without any upload\<close>
  "silent =
     (let d = \<lparr>uploads = [], segments = [], playlists = [], entries = []\<rparr>
      in demo_state\<lparr>session := d, committed := d\<rparr>)"

definition no_entries :: state where
  \<comment> \<open>the concrete station before any entry was added to a playlist\<close>
  "no_entries =
     demo_state\<lparr>session := demo_db\<lparr>entries := []\<rparr>, committed := demo_db\<lparr>entries := []\<rparr>\<rparr>"

definition both_on_disk :: state where
  \<comment> \<open>the concrete station with the media files of both entries of playlist 2 on disk\<close>
  "both_on_disk = demo_state\<lparr>files := [''/m/a.mp3'' \<mapsto> ''x'', ''/m/b.mp4'' \<mapsto> ''y'']\<rparr>"

declare show_nat.simps [simp del]
declare generate_dj_intro.simps [simp del]

section \<open>Properties\<close>

subsection \<open>Activation keeps a single active playlist\<close>

lemma f_write_db [simp]:
  "session (f_write f s st) = session st" "committed (f_write f s st) = committed st"
  by (simp_all add: f_write_def)

lemma export_entries_db:
  "session (snd (export_entries f es st)) = session st \<and>
   committed (snd (export_entries f es st)) = committed st"
  by (cases es) (simp_all add: entry_upload_def)

lemma export_playlist_db:
  "session (snd (export_playlist_to_m3u i st)) = session st \<and>
   committed (snd (export_playlist_to_m3u i st)) = committed st"
proof (cases "get_playlist (session st) i")
  case None
  then show ?thesis by (simp add: export_playlist_to_m3u_def)
next
  case (Some pl)
  let ?st1 = "f_write (m3u_path_of i) (''#EXTM3U'' @ nl) (open_w (m3u_path_of i) st)"
  let ?es = "sort_key e_position (playlist_entries (session st) i)"
  have "session (snd (export_entries (m3u_path_of i) ?es ?st1)) = session st \<and>
        committed (snd (export_entries (m3u_path_of i) ?es ?st1)) = committed st"
    using export_entries_db [of "m3u_path_of i" ?es ?st1] by (simp add: open_w_def)
  then show ?thesis using Some
    by (auto simp: export_playlist_to_m3u_def Let_def split: prod.splits sum.splits)
qed

lemma update_streaming_db [simp]:
  "session (update_streaming_playlist p st) = session st"
  "committed (update_streaming_playlist p st) = committed st"
  by (simp_all add: update_streaming_playlist_def split: option.splits)

lemma set_active_ids [simp]:
  "map p_id (playlists (session (set_active i b st))) = map p_id (playlists (session st))"
  by (simp add: set_active_def comp_def)

lemma get_playlist_None:
  "(get_playlist d j = None) = (j \<notin> p_id ` set (playlists d))"
  by (auto simp: get_playlist_def find_None_iff)

lemma set_active_idset [simp]:
  "p_id ` set (playlists (session (set_active i b st))) = p_id ` set (playlists (session st))"
  by (simp only: list.set_map [symmetric] set_active_ids)

lemma deactivate_holder:
  assumes "length (filter is_active ps) \<le> 1" and "find is_active ps = Some c"
  shows "filter is_active (map (\<lambda>p. if p_id p = p_id c then p\<lparr>is_active := False\<rparr> else p) ps) = []"
proof -
  from assms(2) have c: "c \<in> set (filter is_active ps)"
    by (auto simp: find_Some_iff)
  have "x = c" if "x \<in> set (filter is_active ps)" for x
  proof -
    from assms(1) c obtain y where "filter is_active ps = [y]"
      by (cases "filter is_active ps") (auto simp: le_Suc_eq)
    with c that show ?thesis by simp
  qed
  then show ?thesis by (auto simp: filter_empty_conv)
qed

lemma activate_row:
  "distinct (map p_id ps) \<Longrightarrow> i \<in> p_id ` set ps \<Longrightarrow> \<forall>p\<in>set ps. \<not> is_active p \<Longrightarrow>
   map p_id (filter is_active (map (\<lambda>p. if p_id p = i then p\<lparr>is_active := True\<rparr> else p) ps)) = [i]"
proof (induction ps)
  case Nil
  then show ?case by simp
next
  case (Cons p ps)
  show ?case
  proof (cases "p_id p = i")
    case True
    from Cons.prems(1) have "p_id p \<notin> p_id ` set ps" by simp
    with True have "\<forall>q\<in>set ps. p_id q \<noteq> i" by blast
    then have "filter is_active (map (\<lambda>p. if p_id p = i then p\<lparr>is_active := True\<rparr> else p) ps) = []"
      using Cons.prems(3) by (auto simp: filter_empty_conv)
    with True show ?thesis by simp
  next
    case False
    with Cons show ?thesis by auto
  qed
qed


lemma deactivate_current_ids:
  "map p_id (playlists (session (deactivate_current st))) = map p_id (playlists (session st))"
  by (simp add: deactivate_current_def split: option.splits)

lemma deactivate_current_idset:
  "p_id ` set (playlists (session (deactivate_current st))) = p_id ` set (playlists (session st))"
  by (simp only: list.set_map [symmetric] deactivate_current_ids)

lemma deactivate_current_none_active:
  assumes "length (filter is_active (playlists (session st))) \<le> 1"
  shows "filter is_active (playlists (session (deactivate_current st))) = []"
proof (cases "find is_active (playlists (session st))")
  case None
  then have "\<forall>x\<in>set (playlists (session st)). \<not> is_active x"
    by (simp add: find_None_iff)
  then show ?thesis
    by (simp add: deactivate_current_def None filter_empty_conv)
next
  case (Some c)
  with deactivate_holder [OF assms Some] show ?thesis
    by (simp add: deactivate_current_def set_active_def)
qed

lemma activate_playlist_run_found:
  assumes "get_playlist (session st) i \<noteq> None"
  shows "\<exists>r st3. export_playlist_to_m3u i (activate_swap i st) = (r, st3) \<and>
           session st3 = session (activate_swap i st) \<and>
           committed st3 = committed (activate_swap i st) \<and>
           activate_playlist_run i st =
             (case r of
                Inl e \<Rightarrow> (Inl e, [activate_swap i st, st3])
              | Inr None \<Rightarrow> (Inr True, [activate_swap i st, st3])
              | Inr (Some p) \<Rightarrow>
                  (Inr True, [activate_swap i st, st3, update_streaming_playlist p st3]))"
proof -
  let ?st1 = "deactivate_current st"
  let ?st2 = "activate_swap i st"
  have found: "get_playlist (session ?st1) i \<noteq> None"
    using assms by (simp add: get_playlist_None deactivate_current_idset)
  then obtain np where np: "get_playlist (session ?st1) i = Some np" by auto
  obtain r st3 where ex: "export_playlist_to_m3u i ?st2 = (r, st3)"
    by (cases "export_playlist_to_m3u i ?st2")
  with export_playlist_db [of i ?st2]
  have db3: "session st3 = session ?st2" "committed st3 = committed ?st2" by simp_all
  have ex': "export_playlist_to_m3u i (commit (set_active i True ?st1)) = (r, st3)"
    using ex by (simp add: activate_swap_def)
  have "activate_playlist_run i st =
             (case r of
                Inl e \<Rightarrow> (Inl e, [?st2, st3])
              | Inr None \<Rightarrow> (Inr True, [?st2, st3])
              | Inr (Some p) \<Rightarrow> (Inr True, [?st2, st3, update_streaming_playlist p st3]))"
    by (simp add: activate_playlist_run_def Let_def np ex' activate_swap_def
          split: sum.splits option.splits)
  with ex db3 show ?thesis by blast
qed

lemma activate_playlist_found:
  assumes "get_playlist (session st) i \<noteq> None"
  shows "fst (activate_playlist i st) \<noteq> Inr False \<and>
         session (snd (activate_playlist i st)) = session (activate_swap i st) \<and>
         committed (snd (activate_playlist i st)) = committed (activate_swap i st)"
proof -
  from activate_playlist_run_found [OF assms] obtain r st3 where
    db3: "session st3 = session (activate_swap i st)"
         "committed st3 = committed (activate_swap i st)"
    and run: "activate_playlist_run i st =
             (case r of
                Inl e \<Rightarrow> (Inl e, [activate_swap i st, st3])
              | Inr None \<Rightarrow> (Inr True, [activate_swap i st, st3])
              | Inr (Some p) \<Rightarrow>
                  (Inr True, [activate_swap i st, st3, update_streaming_playlist p st3]))"
    by blast
  show ?thesis
    using db3 by (simp add: activate_playlist_def run split: sum.splits option.splits)
qed

lemma activate_playlist_missing:
  assumes "get_playlist (session st) i = None"
  shows "fst (activate_playlist i st) = Inr False"
proof -
  have "get_playlist (session (deactivate_current st)) i = None"
    using assms by (simp add: get_playlist_None deactivate_current_idset)
  then show ?thesis
    by (simp add: activate_playlist_def activate_playlist_run_def Let_def)
qed

text \<open>
  C1. In a store where at most one playlist is active (and primary keys are unique),
  a call \<open>activate_playlist i\<close> that returns \<open>True\<close> was made for an existing
  playlist, and afterwards the committed store has \<open>i\<close> as its one and only active
  playlist: the rows are the same as before, and every other playlist, the previous
  holder included, is inactive.
\<close>

theorem activate_playlist_single_active:
  assumes "distinct (map p_id (playlists (session st)))"
      and "length (filter is_active (playlists (session st))) \<le> 1"
      and "activate_playlist i st = (Inr True, st')"
  shows "get_playlist (session st) i \<noteq> None \<and>
         map p_id (filter is_active (playlists (committed st'))) = [i] \<and>
         map p_id (playlists (committed st')) = map p_id (playlists (session st)) \<and>
         (\<forall>q\<in>set (playlists (session st)). is_active q \<and> p_id q \<noteq> i \<longrightarrow>
            (\<exists>q'\<in>set (playlists (committed st')). p_id q' = p_id q \<and> \<not> is_active q'))"
proof -
  let ?st1 = "deactivate_current st"
  have found: "get_playlist (session st) i \<noteq> None"
    using activate_playlist_missing [of st i] assms(3) by auto
  have com: "committed st' = session (set_active i True ?st1)"
    using activate_playlist_found [OF found] assms(3)
    by (simp add: activate_swap_def commit_def)
  have ids: "map p_id (playlists (committed st')) = map p_id (playlists (session st))"
    by (simp add: com deactivate_current_ids)
  have d1: "distinct (map p_id (playlists (session ?st1)))"
    using assms(1) by (simp add: deactivate_current_ids)
  have i1: "i \<in> p_id ` set (playlists (session ?st1))"
    using found by (simp add: get_playlist_None deactivate_current_idset)
  have n1: "\<forall>p\<in>set (playlists (session ?st1)). \<not> is_active p"
    using deactivate_current_none_active [OF assms(2)] by (simp add: filter_empty_conv)
  have one: "map p_id (filter is_active (playlists (committed st'))) = [i]"
    using activate_row [OF d1 i1 n1] by (simp add: com set_active_def)
  have prev: "\<exists>q'\<in>set (playlists (committed st')). p_id q' = p_id q \<and> \<not> is_active q'"
    if q: "q \<in> set (playlists (session st))" and ne: "p_id q \<noteq> i" for q
  proof -
    from q have "p_id q \<in> set (map p_id (playlists (committed st')))"
      by (simp add: ids)
    then obtain q' where q': "q' \<in> set (playlists (committed st'))" "p_id q' = p_id q"
      by auto
    have "\<not> is_active q'"
    proof
      assume "is_active q'"
      with q'(1) have "q' \<in> set (filter is_active (playlists (committed st')))"
        by simp
      then have "p_id q' \<in> p_id ` set (filter is_active (playlists (committed st')))"
        by (rule imageI)
      then have "p_id q' \<in> set (map p_id (filter is_active (playlists (committed st'))))"
        by (simp only: list.set_map)
      with one have "p_id q' = i" by simp
      with q'(2) ne show False by simp
    qed
    with q' show ?thesis by blast
  qed
  from found one ids prev show ?thesis by blast
qed


theorem activate_playlist_single_active_witness:
  "distinct (map p_id (playlists (session no_entries))) \<and>
   length (filter is_active (playlists (session no_entries))) \<le> 1 \<and>
   map p_id (filter is_active (playlists (session no_entries))) = [1] \<and>
   playlist_entries (session no_entries) 2 = [] \<and>
   fst (activate_playlist 2 no_entries) = Inr True \<and>
   map p_id (filter is_active (playlists (committed (snd (activate_playlist 2 no_entries))))) = [2]"
proof -
  have h1: "distinct (map p_id (playlists (session no_entries)))"
    by code_simp
  have h2: "length (filter is_active (playlists (session no_entries))) \<le> 1"
    by code_simp
  have h3: "fst (activate_playlist 2 no_entries) = Inr True"
    by code_simp
  then have h3': "activate_playlist 2 no_entries = (Inr True, snd (activate_playlist 2 no_entries))"
    by (metis prod.collapse)
  have a: "map p_id (filter is_active (playlists (session no_entries))) = [1]"
    by code_simp
  have e: "playlist_entries (session no_entries) 2 = []"
    by code_simp
  from activate_playlist_single_active [OF h1 h2 h3'] h1 h2 h3 a e show ?thesis
    by simp
qed

subsection \<open>Activation: the commit comes before the export\<close>

lemma export_entries_exists:
  "files st f \<noteq> None \<Longrightarrow> files (snd (export_entries g es st)) f \<noteq> None"
  by (cases es) (simp_all add: entry_upload_def)

lemma export_playlist_writes:
  assumes "get_playlist (session st) i \<noteq> None"
  shows "files (snd (export_playlist_to_m3u i st)) (m3u_path_of i) \<noteq> None"
proof -
  let ?f = "m3u_path_of i"
  let ?st1 = "f_write ?f (''#EXTM3U'' @ nl) (open_w ?f st)"
  have "files ?st1 ?f \<noteq> None" by (simp add: f_write_def)
  then have "files (snd (export_entries ?f (sort_key e_position (playlist_entries (session st) i)) ?st1)) ?f \<noteq> None"
    by (rule export_entries_exists)
  with assms show ?thesis
    by (auto simp: export_playlist_to_m3u_def Let_def split: prod.splits sum.splits)
qed

lemma update_streaming_exists:
  "files st f \<noteq> None \<Longrightarrow> files (update_streaming_playlist p st) f \<noteq> None"
  by (simp add: update_streaming_playlist_def split: option.splits)

lemma activate_swap_files: "files (activate_swap i st) = files st"
  by (simp add: activate_swap_def commit_def set_active_def deactivate_current_def split: option.splits)

lemma set_active_marks:
  "i \<in> p_id ` set ps \<Longrightarrow>
   list_ex (\<lambda>p. p_id p = i \<and> is_active p) (map (\<lambda>p. if p_id p = i then p\<lparr>is_active := True\<rparr> else p) ps)"
  by (induction ps) auto

lemma activate_swap_marks:
  assumes "get_playlist (session st) i \<noteq> None"
  shows "marked_active (activate_swap i st) i"
proof -
  have "i \<in> p_id ` set (playlists (session (deactivate_current st)))"
    using assms by (simp add: get_playlist_None deactivate_current_idset)
  from set_active_marks [OF this] show ?thesis
    by (simp add: marked_active_def activate_swap_def commit_def set_active_def)
qed

lemma marked_active_cong: "committed s = committed t \<Longrightarrow> marked_active s i = marked_active t i"
  by (simp add: marked_active_def)

text \<open>
  C2 (as amended). \<open>activate_playlist\<close> on an existing playlist commits the swap
  first and opens the export file afterwards: in the first state another observer can
  see, the playlist is already marked active while the file system is exactly as it was
  before the call (so its export file is absent if it was never exported before); the
  playlist stays marked active in every later state of the call, whether the call
  returns or raises, and the export file has been created when the call is over.
\<close>

theorem activate_commits_before_export:
  assumes "get_playlist (session st) i \<noteq> None"
  shows "hd (activate_playlist_trace i st) = activate_swap i st \<and>
         marked_active (activate_swap i st) i \<and>
         files (activate_swap i st) = files st \<and>
         (\<forall>s\<in>set (activate_playlist_trace i st). marked_active s i) \<and>
         last (activate_playlist_trace i st) = snd (activate_playlist i st) \<and>
         files (snd (activate_playlist i st)) (m3u_path_of i) \<noteq> None"
proof -
  let ?st2 = "activate_swap i st"
  from activate_playlist_run_found [OF assms] obtain r st3 where
    ex: "export_playlist_to_m3u i ?st2 = (r, st3)"
    and db3: "committed st3 = committed ?st2"
    and run: "activate_playlist_run i st =
             (case r of
                Inl e \<Rightarrow> (Inl e, [?st2, st3])
              | Inr None \<Rightarrow> (Inr True, [?st2, st3])
              | Inr (Some p) \<Rightarrow> (Inr True, [?st2, st3, update_streaming_playlist p st3]))"
    by blast
  have found2: "get_playlist (session ?st2) i \<noteq> None"
    using assms
    by (simp add: get_playlist_None activate_swap_def commit_def deactivate_current_idset)
  have f3: "files st3 (m3u_path_of i) \<noteq> None"
    using export_playlist_writes [OF found2] ex by simp
  have m2: "marked_active ?st2 i" by (rule activate_swap_marks [OF assms])
  have m3: "marked_active st3 i" using m2 marked_active_cong [OF db3] by simp
  have m4: "marked_active (update_streaming_playlist p st3) i" for p
    using m3 marked_active_cong [of "update_streaming_playlist p st3" st3] by simp
  have tr: "activate_playlist_trace i st =
              (case r of Inr (Some p) \<Rightarrow> [?st2, st3, update_streaming_playlist p st3]
               | _ \<Rightarrow> [?st2, st3])"
    by (simp add: activate_playlist_trace_def run split: sum.splits option.splits)
  have act: "snd (activate_playlist i st) =
              (case r of Inr (Some p) \<Rightarrow> update_streaming_playlist p st3 | _ \<Rightarrow> st3)"
    by (simp add: activate_playlist_def run split: sum.splits option.splits)
  have c1: "hd (activate_playlist_trace i st) = ?st2"
    by (simp add: tr split: sum.splits option.splits)
  have c4: "\<forall>s\<in>set (activate_playlist_trace i st). marked_active s i"
    using m2 m3 m4 by (simp add: tr split: sum.splits option.splits)
  have c5: "last (activate_playlist_trace i st) = snd (activate_playlist i st)"
    by (simp add: tr act split: sum.splits option.splits)
  have c6: "files (snd (activate_playlist i st)) (m3u_path_of i) \<noteq> None"
    using f3 update_streaming_exists [OF f3] by (simp add: act split: sum.splits option.splits)
  from c1 m2 activate_swap_files c4 c5 c6 show ?thesis by blast
qed

theorem activate_commits_before_export_witness:
  "get_playlist (session no_entries) 2 \<noteq> None \<and>
   fst (activate_playlist 2 no_entries) = Inr True \<and>
   marked_active (hd (activate_playlist_trace 2 no_entries)) 2 \<and>
   files (hd (activate_playlist_trace 2 no_entries)) (m3u_path_of 2) = None \<and>
   files (last (activate_playlist_trace 2 no_entries)) (m3u_path_of 2) \<noteq> None"
proof -
  have h: "get_playlist (session no_entries) 2 \<noteq> None" by code_simp
  have n: "files no_entries (m3u_path_of 2) = None" by code_simp
  have r: "fst (activate_playlist 2 no_entries) = Inr True" by code_simp
  from activate_commits_before_export [OF h] h n r show ?thesis by simp
qed

text \<open>
  The claim as stated fails. On the station without entries the call returns \<open>True\<close>,
  and right after its commit playlist 2 is observable as active while its export file
  does not exist yet; the same first state is observable on the station with entries.
\<close>

theorem export_before_swap_counterexample:
  "fst (activate_playlist 2 no_entries) = Inr True \<and>
   marked_active (hd (activate_playlist_trace 2 no_entries)) 2 \<and>
   files (hd (activate_playlist_trace 2 no_entries)) (m3u_path_of 2) = None \<and>
   marked_active (hd (activate_playlist_trace 2 demo_state)) 2 \<and>
   files (hd (activate_playlist_trace 2 demo_state)) (m3u_path_of 2) = None"
  by code_simp

subsection \<open>The export file\<close>

lemma export_entries_raises:
  "es \<noteq> [] \<Longrightarrow> export_entries f es st = (Inl AttributeError, st)"
  by (cases es) (simp_all add: entry_upload_def)

lemma sort_key_nonempty: "xs \<noteq> [] \<Longrightarrow> sort_key k xs \<noteq> []"
  by (metis length_sort list.size(3) length_0_conv)

lemma header_written:
  "files (f_write f (''#EXTM3U'' @ nl) (open_w f st)) f = Some (''#EXTM3U'' @ nl)"
  unfolding f_write_def open_w_def by simp

text \<open>
  C8 (a defect of the code). The export never gets as far as the blocks the claim
  describes. For a playlist with at least one entry \<open>export_playlist_to_m3u\<close> opens the
  file, writes the header line and then raises \<open>AttributeError\<close> at \<open>entry.upload\<close> for the
  entry of lowest position: no path is returned, and the file it leaves behind holds the
  header line and nothing else, whatever Segments and media files exist.
\<close>

theorem export_playlist_raises:
  assumes "get_playlist (session st) i \<noteq> None"
    and "playlist_entries (session st) i \<noteq> []"
  shows "fst (export_playlist_to_m3u i st) = Inl AttributeError \<and>
         files (snd (export_playlist_to_m3u i st)) (m3u_path_of i) = Some (''#EXTM3U'' @ nl)"
proof -
  let ?f = "m3u_path_of i"
  let ?st1 = "f_write ?f (''#EXTM3U'' @ nl) (open_w ?f st)"
  let ?es = "sort_key e_position (playlist_entries (session st) i)"
  from assms(1) obtain pl where pl: "get_playlist (session st) i = Some pl" by auto
  have "?es \<noteq> []" using assms(2) by (rule sort_key_nonempty)
  then have "export_entries ?f ?es ?st1 = (Inl AttributeError, ?st1)"
    by (rule export_entries_raises)
  then have ex: "export_playlist_to_m3u i st = (Inl AttributeError, ?st1)"
    unfolding export_playlist_to_m3u_def Let_def pl by simp
  show ?thesis unfolding ex fst_conv snd_conv
    using header_written [of ?f st] by simp
qed

text \<open>
  On the concrete station playlist 2 has two entries, and the media files of both are on
  disk with a known duration: the call raises and the file has no content line.
\<close>

theorem export_playlist_raises_witness:
  "get_playlist (session both_on_disk) 2 \<noteq> None \<and>
   map e_upload_id (sort_key e_position (playlist_entries (session both_on_disk) 2)) = [2, 1] \<and>
   map (content_present both_on_disk) (uploads (session both_on_disk)) = [True, True, False] \<and>
   fst (export_playlist_to_m3u 2 both_on_disk) = Inl AttributeError \<and>
   files (snd (export_playlist_to_m3u 2 both_on_disk)) (m3u_path_of 2) = Some (''#EXTM3U'' @ nl)"
proof -
  have h1: "get_playlist (session both_on_disk) 2 \<noteq> None" by code_simp
  have h2: "playlist_entries (session both_on_disk) 2 \<noteq> []" by code_simp
  have o: "map e_upload_id (sort_key e_position (playlist_entries (session both_on_disk) 2)) = [2, 1]"
    by code_simp
  have c: "map (content_present both_on_disk) (uploads (session both_on_disk)) = [True, True, False]"
    by code_simp
  from export_playlist_raises [OF h1 h2] h1 o c show ?thesis by simp
qed

subsection \<open>Retention cleanup\<close>

lemma cleanup_loop_effect:
  "playlists (session (cleanup_loop old st)) =
     filter (\<lambda>q. p_id q \<notin> p_id ` set old) (playlists (session st)) \<and>
   entries (session (cleanup_loop old st)) =
     filter (\<lambda>e. e_playlist_id e \<notin> p_id ` set old) (entries (session st)) \<and>
   uploads (session (cleanup_loop old st)) = uploads (session st) \<and>
   segments (session (cleanup_loop old st)) = segments (session st) \<and>
   (\<forall>f. files (cleanup_loop old st) f =
          (if f \<in> m3u_path_of ` p_id ` set old then None else files st f))"
proof (induction old arbitrary: st)
  case Nil
  then show ?case by simp
next
  case (Cons pl rest)
  let ?m = "m3u_path_of (p_id pl)"
  let ?st1 = "if path_exists st ?m then st\<lparr>files := (files st)(?m := None)\<rparr> else st"
  let ?st2 = "?st1\<lparr>session := (session ?st1)\<lparr>entries :=
                  filter (\<lambda>e. e_playlist_id e \<noteq> p_id pl) (entries (session ?st1))\<rparr>\<rparr>"
  let ?st3 = "?st2\<lparr>session := (session ?st2)\<lparr>playlists :=
                  filter (\<lambda>q. p_id q \<noteq> p_id pl) (playlists (session ?st2))\<rparr>\<rparr>"
  have step: "cleanup_loop (pl # rest) st = cleanup_loop rest ?st3"
    by (simp add: Let_def)
  have p3: "playlists (session ?st3) = filter (\<lambda>q. p_id q \<noteq> p_id pl) (playlists (session st))"
    and e3: "entries (session ?st3) = filter (\<lambda>e. e_playlist_id e \<noteq> p_id pl) (entries (session st))"
    and u3: "uploads (session ?st3) = uploads (session st)"
    and s3: "segments (session ?st3) = segments (session st)"
    by simp_all
  have f3: "files ?st3 f = (if f = ?m then None else files st f)" for f
    by (auto simp: path_exists_def)
  note ih = Cons.IH [of ?st3]
  have c1: "playlists (session (cleanup_loop rest ?st3)) =
            filter (\<lambda>q. p_id q \<notin> p_id ` set (pl # rest)) (playlists (session st))"
    using ih unfolding p3 by (auto intro: filter_cong)
  have c2: "entries (session (cleanup_loop rest ?st3)) =
            filter (\<lambda>e. e_playlist_id e \<notin> p_id ` set (pl # rest)) (entries (session st))"
    using ih unfolding e3 by (auto intro: filter_cong)
  have c3: "uploads (session (cleanup_loop rest ?st3)) = uploads (session st)"
    using ih unfolding u3 by simp
  have c4: "segments (session (cleanup_loop rest ?st3)) = segments (session st)"
    using ih unfolding s3 by simp
  have c5: "\<forall>f. files (cleanup_loop rest ?st3) f =
          (if f \<in> m3u_path_of ` p_id ` set (pl # rest) then None else files st f)"
  proof
    fix f
    from ih have "files (cleanup_loop rest ?st3) f =
          (if f \<in> m3u_path_of ` p_id ` set rest then None else files ?st3 f)"
      by blast
    then show "files (cleanup_loop rest ?st3) f =
          (if f \<in> m3u_path_of ` p_id ` set (pl # rest) then None else files st f)"
      unfolding f3 by auto
  qed
  from c1 c2 c3 c4 c5 show ?case unfolding step by blast
qed

lemma same_id_same_row:
  assumes "distinct (map p_id ps)" and "p \<in> set ps" and "q \<in> set ps" and "p_id p = p_id q"
  shows "p = q"
  using assms by (meson distinct_map inj_onD)

lemma expired_rows:
  assumes "distinct (map p_id ps)"
  shows "filter (\<lambda>q. p_id q \<notin> p_id ` set (filter P ps)) ps = filter (\<lambda>q. \<not> P q) ps"
proof (rule filter_cong [OF refl])
  fix q assume q: "q \<in> set ps"
  show "(p_id q \<notin> p_id ` set (filter P ps)) = (\<not> P q)"
  proof
    assume "p_id q \<notin> p_id ` set (filter P ps)"
    with q show "\<not> P q" by auto
  next
    assume n: "\<not> P q"
    show "p_id q \<notin> p_id ` set (filter P ps)"
    proof
      assume "p_id q \<in> p_id ` set (filter P ps)"
      then obtain p where p: "p \<in> set ps" "P p" "p_id p = p_id q" by auto
      with same_id_same_row [OF assms p(1) q p(3)] n show False by simp
    qed
  qed
qed

text \<open>
  C9. With unique primary keys, \<open>cleanup_old_playlists\<close> leaves in the committed store
  exactly the playlists that are not expired, an expired playlist being an inactive one
  created before \<open>utcnow - days_to_keep\<close> days; so every active playlist is kept,
  whatever its age. The entries of the deleted playlists are deleted with them, their
  export files are gone from the file system, and the number reported is the number of
  expired playlists.
\<close>

theorem cleanup_old_playlists_retention:
  assumes "distinct (map p_id (playlists (session st)))"
  shows "playlists (committed (snd (cleanup_old_playlists ev days st))) =
           filter (\<lambda>p. \<not> expired ev days p) (playlists (session st)) \<and>
         (\<forall>p\<in>set (playlists (session st)).
            is_active p \<longrightarrow> p \<in> set (playlists (committed (snd (cleanup_old_playlists ev days st))))) \<and>
         (\<forall>p. expired ev days p =
               (created_at p < utcnow ev - days * microseconds_per_day \<and> \<not> is_active p)) \<and>
         entries (committed (snd (cleanup_old_playlists ev days st))) =
           filter (\<lambda>e. e_playlist_id e \<notin>
                        p_id ` set (filter (expired ev days) (playlists (session st))))
             (entries (session st)) \<and>
         (\<forall>p\<in>set (playlists (session st)).
            expired ev days p \<longrightarrow>
              files (snd (cleanup_old_playlists ev days st)) (m3u_path_of (p_id p)) = None) \<and>
         fst (cleanup_old_playlists ev days st) =
           length (filter (expired ev days) (playlists (session st)))"
proof -
  let ?old = "filter (expired ev days) (playlists (session st))"
  let ?st' = "snd (cleanup_old_playlists ev days st)"
  note eff = cleanup_loop_effect [of ?old st]
  have com: "committed ?st' = session (cleanup_loop ?old st)"
    by (simp add: cleanup_old_playlists_def Let_def commit_def)
  have fl: "files ?st' = files (cleanup_loop ?old st)"
    by (simp add: cleanup_old_playlists_def Let_def commit_def)
  have c1: "playlists (committed ?st') = filter (\<lambda>p. \<not> expired ev days p) (playlists (session st))"
    using eff expired_rows [OF assms, of "expired ev days"] unfolding com by simp
  have c2: "\<forall>p\<in>set (playlists (session st)). is_active p \<longrightarrow> p \<in> set (playlists (committed ?st'))"
    unfolding c1 by (simp add: expired_def)
  have c3: "\<forall>p. expired ev days p =
               (created_at p < utcnow ev - days * microseconds_per_day \<and> \<not> is_active p)"
    by (simp add: expired_def)
  have c4: "entries (committed ?st') =
           filter (\<lambda>e. e_playlist_id e \<notin> p_id ` set ?old) (entries (session st))"
    using eff unfolding com by blast
  have c5: "\<forall>p\<in>set (playlists (session st)).
            expired ev days p \<longrightarrow> files ?st' (m3u_path_of (p_id p)) = None"
    using eff unfolding fl by auto
  have c6: "fst (cleanup_old_playlists ev days st) = length ?old"
    by (simp add: cleanup_old_playlists_def Let_def)
  from c1 c2 c3 c4 c5 c6 show ?thesis by blast
qed


theorem cleanup_old_playlists_retention_witness:
  "distinct (map p_id (playlists (session demo_state))) \<and>
   map p_id (playlists (committed (snd (cleanup_old_playlists
      (demo_env\<lparr>utcnow := 604800000010\<rparr>) days_to_keep_default demo_state)))) = [1] \<and>
   fst (cleanup_old_playlists (demo_env\<lparr>utcnow := 604800000010\<rparr>) days_to_keep_default
      demo_state) = 1"
proof -
  let ?ev = "demo_env\<lparr>utcnow := 604800000010\<rparr>"
  have h: "distinct (map p_id (playlists (session demo_state)))" by code_simp
  note t = cleanup_old_playlists_retention [OF h, of ?ev days_to_keep_default]
  from t have "playlists (committed (snd (cleanup_old_playlists ?ev days_to_keep_default demo_state))) =
           filter (\<lambda>p. \<not> expired ?ev days_to_keep_default p) (playlists (session demo_state))"
    by blast
  then have "map p_id (playlists (committed (snd (cleanup_old_playlists ?ev days_to_keep_default demo_state)))) =
           map p_id (filter (\<lambda>p. \<not> expired ?ev days_to_keep_default p) (playlists (session demo_state)))"
    by simp
  also have "\<dots> = [1]" by code_simp
  finally have a: "map p_id (playlists (committed (snd (cleanup_old_playlists ?ev days_to_keep_default demo_state)))) = [1]" .
  from t have "fst (cleanup_old_playlists ?ev days_to_keep_default demo_state) =
           length (filter (expired ?ev days_to_keep_default) (playlists (session demo_state)))"
    by blast
  also have "\<dots> = 1" by code_simp
  finally have b: "fst (cleanup_old_playlists ?ev days_to_keep_default demo_state) = 1" .
  from h a b show ?thesis by blast
qed

subsection \<open>The daily playlist\<close>

lemma pool_remove:
  assumes "j < length pool"
  shows "add_mset (pool ! j) (mset (butlast (pool[j := last pool]))) = mset pool"
proof (cases pool rule: rev_cases)
  case Nil
  with assms show ?thesis by simp
next
  case (snoc xs l)
  show ?thesis
  proof (cases "j = length xs")
    case True
    with snoc show ?thesis by simp
  next
    case False
    with assms snoc have j: "j < length xs" by simp
    then have "pool[j := last pool] = xs[j := l] @ [l]"
      using snoc by (simp add: list_update_append)
    then have "butlast (pool[j := last pool]) = xs[j := l]" by simp
    moreover have "pool ! j = xs ! j" using snoc j by (simp add: nth_append)
    moreover have "add_mset (xs ! j) (mset (xs[j := l])) = add_mset l (mset xs)"
      using j by (simp add: mset_update)
    ultimately show ?thesis using snoc by simp
  qed
qed

lemma sample_loop_length:
  "k \<le> length pool \<Longrightarrow> length (sample_loop r pool k) = k"
  by (induction k arbitrary: r pool) (auto simp: Let_def)

lemma sample_loop_mset:
  "k \<le> length pool \<Longrightarrow> mset (sample_loop r pool k) \<subseteq># mset pool"
proof (induction k arbitrary: r pool)
  case 0
  then show ?case by simp
next
  case (Suc k)
  let ?j = "r 0 mod length pool"
  let ?pool' = "butlast (pool[?j := last pool])"
  from Suc.prems have ne: "0 < length pool" by (cases pool) simp_all
  then have j: "?j < length pool" by (rule mod_less_divisor)
  have "k \<le> length ?pool'" using Suc.prems by simp
  then have "mset (sample_loop (shift 1 r) ?pool' k) \<subseteq># mset ?pool'"
    by (rule Suc.IH)
  then have "add_mset (pool ! ?j) (mset (sample_loop (shift 1 r) ?pool' k))
             \<subseteq># add_mset (pool ! ?j) (mset ?pool')"
    by simp
  then show ?case
    by (simp add: Let_def pool_remove [OF j])
qed

lemma shuffle_loop_mset:
  "i < length x \<or> i = 0 \<Longrightarrow> mset (shuffle_loop r i x) = mset x"
proof (induction i arbitrary: r x)
  case 0
  then show ?case by simp
next
  case (Suc i)
  let ?j = "r 0 mod (Suc i + 1)"
  let ?x' = "x[Suc i := x ! ?j, ?j := x ! Suc i]"
  from Suc.prems have i: "Suc i < length x" by simp
  have "?j < Suc i + 1" by (rule mod_less_divisor) simp
  with i have j: "?j < length x" by linarith
  have "mset ?x' = mset x" by (rule mset_swap [OF j i])
  moreover have "mset (shuffle_loop (shift 1 r) i ?x') = mset ?x'"
    by (rule Suc.IH) (use i in simp)
  ultimately show ?case by (simp add: Let_def)
qed

lemma fold_max_ge: "x \<in> set ids \<Longrightarrow> x \<le> fold max ids (a::nat)"
proof -
  assume "x \<in> set ids"
  then have "x \<le> Max (set (a # ids))" by simp
  then show ?thesis by (simp only: Max.set_eq_fold)
qed

lemma next_id_fresh: "next_id ids \<notin> set ids"
proof
  assume "next_id ids \<in> set ids"
  then have "next_id ids \<le> fold max ids 0" by (rule fold_max_ge)
  then show False by (simp add: next_id_def)
qed

lemma add_entries_effect:
  "\<exists>news. entries (add_entries i pos us d) = entries d @ news \<and>
           (\<forall>e\<in>set news. e_playlist_id e = i) \<and>
           map e_position news = [pos..<pos + length us] \<and>
           map e_upload_id news = map u_id us"
proof (induction us arbitrary: pos d)
  case Nil
  then show ?case by simp
next
  case (Cons u us)
  let ?e = "\<lparr>e_id = next_id (map e_id (entries d)), e_playlist_id = i,
              e_upload_id = u_id u, e_position = pos\<rparr>"
  let ?d' = "d\<lparr>entries := entries d @ [?e]\<rparr>"
  from Cons.IH [of "Suc pos" ?d'] obtain news where
    n: "entries (add_entries i (Suc pos) us ?d') = entries ?d' @ news"
       "\<forall>e\<in>set news. e_playlist_id e = i"
       "map e_position news = [Suc pos..<Suc pos + length us]"
       "map e_upload_id news = map u_id us"
    by blast
  have "entries (add_entries i pos (u # us) d) = entries d @ (?e # news)"
    using n(1) by simp
  moreover have "\<forall>e\<in>set (?e # news). e_playlist_id e = i" using n(2) by simp
  moreover have "map e_position (?e # news) = [pos..<pos + length (u # us)]"
  proof -
    have a: "pos + length (u # us) = Suc pos + length us" by simp
    have "[pos..<Suc pos + length us] = pos # [Suc pos..<Suc pos + length us]"
      by (rule upt_conv_Cons) simp
    then have "[pos..<pos + length (u # us)] = pos # map e_position news"
      by (simp only: a n(3))
    then show ?thesis by simp
  qed
  moreover have "map e_upload_id (?e # news) = map u_id (u # us)" using n(4) by simp
  ultimately show ?case by blast
qed

lemma add_entries_rest:
  "playlists (add_entries i pos us d) = playlists d \<and>
   uploads (add_entries i pos us d) = uploads d \<and>
   segments (add_entries i pos us d) = segments d"
  by (induction us arbitrary: pos d) auto

lemma sample_in_range:
  "k \<le> length population \<Longrightarrow>
   sample population k st =
     (Inr (sample_loop (rng st) population k), st\<lparr>rng := shift k (rng st)\<rparr>)"
  by (simp add: sample_def)


lemma shift_0 [simp]: "shift 0 r = r"
  by (simp add: shift_def)

lemma create_daily_playlist_none:
  assumes "approved (session st) ''audio'' = []" and "approved (session st) ''video'' = []"
  shows "create_daily_playlist ev date st = (Inr None, st)"
  using assms by (simp add: create_daily_playlist_def Let_def)

lemma select_content_ok:
  "\<exists>sel ap vp r.
     select_content A V st = (Inr sel, st\<lparr>rng := r\<rparr>) \<and>
     mset sel = mset ap + mset vp \<and>
     length ap = min audio_slots (length A) \<and> mset ap \<subseteq># mset A \<and>
     length vp = min video_slots (length V) \<and> mset vp \<subseteq># mset V"
proof -
  define ka where "ka = min audio_slots (length A)"
  define kv where "kv = min video_slots (length V)"
  define ap where "ap = sample_loop (rng st) A ka"
  define st2 where "st2 = st\<lparr>rng := shift ka (rng st)\<rparr>"
  define vp where "vp = sample_loop (rng st2) V kv"
  define st3 where "st3 = st2\<lparr>rng := shift kv (rng st2)\<rparr>"
  define sel where "sel = shuffle_loop (rng st3) (length (ap @ vp) - 1) (ap @ vp)"
  define st4 where "st4 = st3\<lparr>rng := shift (length (ap @ vp) - 1) (rng st3)\<rparr>"
  have a: "(if A \<noteq> [] then sample A (min audio_slots (length A)) st else (Inr [], st)) = (Inr ap, st2)"
  proof (cases "A = []")
    case True
    then show ?thesis by (simp add: ap_def st2_def ka_def)
  next
    case False
    then show ?thesis by (simp add: sample_in_range ap_def st2_def ka_def)
  qed
  have v: "(if V \<noteq> [] then sample V (min video_slots (length V)) st2 else (Inr [], st2)) = (Inr vp, st3)"
  proof (cases "V = []")
    case True
    then show ?thesis by (simp add: vp_def st3_def kv_def)
  next
    case False
    then show ?thesis by (simp add: sample_in_range vp_def st3_def kv_def)
  qed
  have s: "shuffle (ap @ vp) st3 = (sel, st4)"
    by (simp add: shuffle_def sel_def st4_def)
  have res: "select_content A V st = (Inr sel, st4)"
    unfolding select_content_def a by (simp add: v s)
  have st4: "st4 = st\<lparr>rng := rng st4\<rparr>"
    by (simp add: st4_def st3_def st2_def)
  have m: "mset sel = mset ap + mset vp"
  proof -
    have "length (ap @ vp) - 1 < length (ap @ vp) \<or> length (ap @ vp) - 1 = 0"
      by (cases "ap @ vp") simp_all
    then have "mset sel = mset (ap @ vp)"
      unfolding sel_def by (rule shuffle_loop_mset)
    then show ?thesis by simp
  qed
  have la: "length ap = ka" unfolding ap_def by (rule sample_loop_length) (simp add: ka_def)
  have lv: "length vp = kv" unfolding vp_def by (rule sample_loop_length) (simp add: kv_def)
  have ma: "mset ap \<subseteq># mset A" unfolding ap_def by (rule sample_loop_mset) (simp add: ka_def)
  have mv: "mset vp \<subseteq># mset V" unfolding vp_def by (rule sample_loop_mset) (simp add: kv_def)
  from res st4 have "select_content A V st = (Inr sel, st\<lparr>rng := rng st4\<rparr>)" by simp
  with m la lv ma mv show ?thesis unfolding ka_def kv_def by blast
qed

lemma create_daily_playlist_some:
  assumes ne: "approved (session st) ''audio'' \<noteq> [] \<or> approved (session st) ''video'' \<noteq> []"
  shows "\<exists>pl sel ap vp.
     fst (create_daily_playlist ev date st) = Inr (Some pl) \<and>
     committed (snd (create_daily_playlist ev date st)) =
        add_entries (p_id pl) 0 sel ((session st)\<lparr>playlists := playlists (session st) @ [pl]\<rparr>) \<and>
     p_id pl = next_id (map p_id (playlists (session st))) \<and> is_active pl = False \<and>
     mset sel = mset ap + mset vp \<and>
     length ap = min audio_slots (length (approved (session st) ''audio'')) \<and>
     mset ap \<subseteq># mset (approved (session st) ''audio'') \<and>
     length vp = min video_slots (length (approved (session st) ''video'')) \<and>
     mset vp \<subseteq># mset (approved (session st) ''video'')"
proof -
  let ?A = "approved (session st) ''audio''"
  let ?V = "approved (session st) ''video''"
  define pl where "pl = new_playlist ev (case date of None \<Rightarrow> now ev | Some d \<Rightarrow> d) st"
  define st1 where "st1 = st\<lparr>session := (session st)\<lparr>playlists := playlists (session st) @ [pl]\<rparr>\<rparr>"
  from select_content_ok [of ?A ?V st1] obtain sel ap vp r where
    sc: "select_content ?A ?V st1 = (Inr sel, st1\<lparr>rng := r\<rparr>)"
    and props: "mset sel = mset ap + mset vp"
      "length ap = min audio_slots (length ?A)" "mset ap \<subseteq># mset ?A"
      "length vp = min video_slots (length ?V)" "mset vp \<subseteq># mset ?V"
    by blast
  have res: "create_daily_playlist ev date st =
      (Inr (Some pl), commit (st1\<lparr>rng := r, session := add_entries (p_id pl) 0 sel (session st1)\<rparr>))"
    using ne sc by (auto simp: create_daily_playlist_def Let_def pl_def [symmetric] st1_def [symmetric])
  have com: "committed (snd (create_daily_playlist ev date st)) =
        add_entries (p_id pl) 0 sel ((session st)\<lparr>playlists := playlists (session st) @ [pl]\<rparr>)"
    unfolding res by (simp add: commit_def st1_def)
  have pid: "p_id pl = next_id (map p_id (playlists (session st)))" "is_active pl = False"
    by (simp_all add: pl_def new_playlist_def)
  from res have "fst (create_daily_playlist ev date st) = Inr (Some pl)" by simp
  with com pid props show ?thesis by blast
qed


lemma distinct_submset: "mset xs \<subseteq># mset ys \<Longrightarrow> distinct ys \<Longrightarrow> distinct xs"
proof (induction xs arbitrary: ys)
  case Nil
  then show ?case by simp
next
  case (Cons x xs)
  from Cons.prems(1) have x: "x \<in> set ys"
    by (metis list.set_intros(1) mset_subset_eqD set_mset_mset)
  from Cons.prems(1) have sub: "mset xs \<subseteq># mset (remove1 x ys)"
    by (simp add: insert_subset_eq_iff)
  have d: "distinct (remove1 x ys)" using Cons.prems(2) by simp
  from Cons.IH [OF sub d] have dx: "distinct xs" .
  have "x \<notin> set xs"
  proof
    assume "x \<in> set xs"
    then have "x \<in># mset xs" by simp
    with sub have "x \<in># mset (remove1 x ys)" by (rule mset_subset_eqD)
    then have "x \<in> set (remove1 x ys)" by (simp only: set_mset_mset)
    with Cons.prems(2) show False by simp
  qed
  with dx show ?case by simp
qed

lemma disjoint_filters_submset:
  "(\<And>x. \<not> (P x \<and> Q x)) \<Longrightarrow> mset (filter P xs) + mset (filter Q xs) \<subseteq># mset xs"
proof (induction xs)
  case Nil
  then show ?case by simp
next
  case (Cons x xs)
  from Cons have ih: "mset (filter P xs) + mset (filter Q xs) \<subseteq># mset xs" by blast
  from Cons.prems [of x] consider "P x" "\<not> Q x" | "\<not> P x" "Q x" | "\<not> P x" "\<not> Q x" by blast
  then show ?case
  proof cases
    case 1
    with ih show ?thesis by simp
  next
    case 2
    with ih show ?thesis by simp
  next
    case 3
    from ih have "mset (filter P xs) + mset (filter Q xs) \<subseteq># add_mset x (mset xs)"
      by (rule subset_mset.trans) simp
    with 3 show ?thesis by simp
  qed
qed

lemma find_own:
  "distinct (map f xs) \<Longrightarrow> x \<in> set xs \<Longrightarrow> find (\<lambda>y. f y = f x) xs = Some x"
  by (induction xs) (auto simp: rev_image_eqI)

lemma get_upload_own:
  "distinct (map u_id (uploads d)) \<Longrightarrow> u \<in> set (uploads d) \<Longrightarrow> get_upload d (u_id u) = Some u"
  by (simp add: get_upload_def find_own)

lemma find_snoc_fresh:
  "\<forall>p\<in>set ps. \<not> P p \<Longrightarrow> P q \<Longrightarrow> find P (ps @ [q]) = Some q"
  by (induction ps) auto

lemma new_playlist_entries:
  assumes "\<forall>e\<in>set (entries d). e_playlist_id e \<noteq> i"
  shows "map e_position (playlist_entries (add_entries i 0 us d) i) = [0..<length us] \<and>
         map e_upload_id (playlist_entries (add_entries i 0 us d) i) = map u_id us"
proof -
  from add_entries_effect [of i 0 us d] obtain news where
    n: "entries (add_entries i 0 us d) = entries d @ news"
       "\<forall>e\<in>set news. e_playlist_id e = i"
       "map e_position news = [0..<0 + length us]"
       "map e_upload_id news = map u_id us"
    by blast
  have "filter (\<lambda>e. e_playlist_id e = i) (entries d) = []"
    using assms by (simp add: filter_empty_conv)
  moreover have "filter (\<lambda>e. e_playlist_id e = i) news = news"
    using n(2) by simp
  ultimately have "playlist_entries (add_entries i 0 us d) i = news"
    by (simp add: playlist_entries_def n(1))
  with n(3,4) show ?thesis by simp
qed

lemma same_mset_filter_length:
  "mset xs = mset ys \<Longrightarrow> length (filter P xs) = length (filter P ys)"
proof -
  assume "mset xs = mset ys"
  then have "mset (filter P xs) = mset (filter P ys)" by simp
  then show ?thesis by (rule mset_eq_length)
qed


lemma slots [simp]: "audio_slots = 35" "video_slots = 15"
  by (simp_all add: audio_slots_def video_slots_def total_slots_def)

lemma create_daily_playlist_entries:
  assumes ne: "approved (session st) ''audio'' \<noteq> [] \<or> approved (session st) ''video'' \<noteq> []"
      and fk: "\<forall>e\<in>set (entries (session st)). e_playlist_id e \<in> p_id ` set (playlists (session st))"
  shows "\<exists>pl sel ap vp.
     fst (create_daily_playlist ev date st) = Inr (Some pl) \<and>
     get_playlist (committed (snd (create_daily_playlist ev date st))) (p_id pl) = Some pl \<and>
     is_active pl = False \<and>
     uploads (committed (snd (create_daily_playlist ev date st))) = uploads (session st) \<and>
     map e_position (playlist_entries (committed (snd (create_daily_playlist ev date st))) (p_id pl))
       = [0..<length sel] \<and>
     map e_upload_id (playlist_entries (committed (snd (create_daily_playlist ev date st))) (p_id pl))
       = map u_id sel \<and>
     mset sel = mset ap + mset vp \<and>
     length ap = min 35 (length (approved (session st) ''audio'')) \<and>
     mset ap \<subseteq># mset (approved (session st) ''audio'') \<and>
     length vp = min 15 (length (approved (session st) ''video'')) \<and>
     mset vp \<subseteq># mset (approved (session st) ''video'')"
proof -
  let ?st' = "snd (create_daily_playlist ev date st)"
  from create_daily_playlist_some [OF ne, of ev date] obtain pl sel ap vp where
    r: "fst (create_daily_playlist ev date st) = Inr (Some pl)"
    and com: "committed ?st' =
        add_entries (p_id pl) 0 sel ((session st)\<lparr>playlists := playlists (session st) @ [pl]\<rparr>)"
    and pid: "p_id pl = next_id (map p_id (playlists (session st)))" "is_active pl = False"
    and props: "mset sel = mset ap + mset vp"
      "length ap = min audio_slots (length (approved (session st) ''audio''))"
      "mset ap \<subseteq># mset (approved (session st) ''audio'')"
      "length vp = min video_slots (length (approved (session st) ''video''))"
      "mset vp \<subseteq># mset (approved (session st) ''video'')"
    by blast
  let ?d1 = "(session st)\<lparr>playlists := playlists (session st) @ [pl]\<rparr>"
  have fresh: "p_id pl \<notin> p_id ` set (playlists (session st))"
    using next_id_fresh [of "map p_id (playlists (session st))"] by (simp add: pid(1))
  have old: "\<forall>e\<in>set (entries ?d1). e_playlist_id e \<noteq> p_id pl"
  proof
    fix e assume "e \<in> set (entries ?d1)"
    then have "e \<in> set (entries (session st))" by simp
    with fk have "e_playlist_id e \<in> p_id ` set (playlists (session st))" by (rule bspec)
    with fresh show "e_playlist_id e \<noteq> p_id pl" by metis
  qed
  note ne' = new_playlist_entries [OF old, of sel]
  have g: "get_playlist (committed ?st') (p_id pl) = Some pl"
  proof -
    have "playlists (committed ?st') = playlists (session st) @ [pl]"
      by (simp add: com add_entries_rest)
    moreover have "\<forall>p\<in>set (playlists (session st)). \<not> p_id p = p_id pl"
      using fresh by (metis imageI)
    ultimately show ?thesis
      by (simp add: get_playlist_def find_snoc_fresh)
  qed
  have u: "uploads (committed ?st') = uploads (session st)"
    by (simp add: com add_entries_rest)
  from r g pid(2) u ne' props show ?thesis
    unfolding com [symmetric] by (simp only: slots) blast
qed

lemma approved_rows:
  "u \<in> set (approved d mt) \<Longrightarrow> u \<in> set (uploads d) \<and> u_media_type u = mt \<and> u_status u = ''approved''"
  by (simp add: approved_def)

text \<open>
  C5. In a store with at least one approved content item (every upload being audio or
  video, as the upload handler enforces, and every entry belonging to an existing
  playlist), \<open>create_daily_playlist\<close> returns a playlist that
  is persisted in the committed store under its own key with \<open>is_active = False\<close>, and
  the positions of its entries, read in order, are exactly \<open>0, 1, ..., n - 1\<close> with
  \<open>n > 0\<close> the number of entries: contiguous, without gap or duplicate.
\<close>

theorem create_daily_playlist_positions:
  assumes "\<exists>u\<in>set (uploads (session st)). u_status u = ''approved''"
      and "\<forall>u\<in>set (uploads (session st)). u_media_type u = ''audio'' \<or> u_media_type u = ''video''"
      and "\<forall>e\<in>set (entries (session st)). e_playlist_id e \<in> p_id ` set (playlists (session st))"
  shows "\<exists>pl st'. create_daily_playlist ev date st = (Inr (Some pl), st') \<and>
           get_playlist (committed st') (p_id pl) = Some pl \<and> is_active pl = False \<and>
           playlist_entries (committed st') (p_id pl) \<noteq> [] \<and>
           map e_position (playlist_entries (committed st') (p_id pl)) =
             [0..<length (playlist_entries (committed st') (p_id pl))]"
proof -
  let ?st' = "snd (create_daily_playlist ev date st)"
  from assms(1) obtain u where u: "u \<in> set (uploads (session st))" "u_status u = ''approved''"
    by blast
  from assms(2) u(1) have "u_media_type u = ''audio'' \<or> u_media_type u = ''video''"
    by (rule bspec)
  with u have "u \<in> set (approved (session st) ''audio'') \<or> u \<in> set (approved (session st) ''video'')"
    by (auto simp: approved_def)
  then have ne: "approved (session st) ''audio'' \<noteq> [] \<or> approved (session st) ''video'' \<noteq> []"
    by auto
  from create_daily_playlist_entries [OF ne assms(3), of ev date]
  obtain pl and sel ap vp :: "upload list" where
    r: "fst (create_daily_playlist ev date st) = Inr (Some pl)"
    and g: "get_playlist (committed ?st') (p_id pl) = Some pl" "is_active pl = False"
    and pos: "map e_position (playlist_entries (committed ?st') (p_id pl)) = [0..<length sel]"
    and m: "mset sel = mset ap + mset vp"
    and la: "length ap = min 35 (length (approved (session st) ''audio''))"
    and lv: "length vp = min 15 (length (approved (session st) ''video''))"
    by blast
  from pos have "length (map e_position (playlist_entries (committed ?st') (p_id pl))) = length [0..<length sel]"
    by (rule arg_cong)
  then have len: "length (playlist_entries (committed ?st') (p_id pl)) = length sel" by simp
  from m have "size (mset sel) = size (mset ap + mset vp)" by (rule arg_cong)
  then have "length sel = length ap + length vp" by simp
  with la lv ne have "0 < length sel" by (auto simp: min_def)
  with len have nonempty: "playlist_entries (committed ?st') (p_id pl) \<noteq> []" by auto
  have res: "create_daily_playlist ev date st = (Inr (Some pl), ?st')"
    using r by (metis prod.collapse)
  from res g nonempty pos len show ?thesis by (metis (no_types))
qed

text \<open>
  C6. Whenever \<open>create_daily_playlist\<close> returns a playlist (upload keys unique, entries
  belonging to existing playlists), the playlist has \<open>min 35 |audio pool|\<close> entries
  whose upload is audio and \<open>min 15 |video pool|\<close> entries whose upload is video, these
  are all its entries, so it has at most 50 entries and no more of a kind than the pool
  of that kind; with 40 approved audio items and no video item it has exactly 35 entries.
\<close>

theorem create_daily_playlist_counts:
  assumes "distinct (map u_id (uploads (session st)))"
      and "\<forall>e\<in>set (entries (session st)). e_playlist_id e \<in> p_id ` set (playlists (session st))"
      and "create_daily_playlist ev date st = (Inr (Some pl), st')"
  shows "length (entries_of_type (committed st') (p_id pl) ''audio'') =
           min 35 (length (approved (session st) ''audio'')) \<and>
         length (entries_of_type (committed st') (p_id pl) ''video'') =
           min 15 (length (approved (session st) ''video'')) \<and>
         length (playlist_entries (committed st') (p_id pl)) =
           min 35 (length (approved (session st) ''audio'')) +
           min 15 (length (approved (session st) ''video'')) \<and>
         length (playlist_entries (committed st') (p_id pl)) \<le> 50 \<and>
         (length (approved (session st) ''audio'') = 40 \<and> approved (session st) ''video'' = []
            \<longrightarrow> length (playlist_entries (committed st') (p_id pl)) = 35)"
proof -
  let ?A = "approved (session st) ''audio''"
  let ?V = "approved (session st) ''video''"
  have ne: "?A \<noteq> [] \<or> ?V \<noteq> []"
    using create_daily_playlist_none [of st ev date] assms(3) by auto
  from create_daily_playlist_entries [OF ne assms(2), of ev date] assms(3) obtain sel ap vp where
    u: "uploads (committed st') = uploads (session st)"
    and ids: "map e_upload_id (playlist_entries (committed st') (p_id pl)) = map u_id sel"
    and m: "mset sel = mset ap + mset vp"
    and la: "length ap = min 35 (length ?A)" and ma: "mset ap \<subseteq># mset ?A"
    and lv: "length vp = min 15 (length ?V)" and mv: "mset vp \<subseteq># mset ?V"
    by auto
  let ?E = "playlist_entries (committed st') (p_id pl)"
  let ?ty = "\<lambda>mt i. case get_upload (committed st') i of None \<Rightarrow> False | Some u \<Rightarrow> u_media_type u = mt"
  have ap: "\<forall>x\<in>set ap. x \<in> set (uploads (session st)) \<and> u_media_type x = ''audio''"
    using set_mset_mono [OF ma] approved_rows [of _ "session st" "''audio''"] by auto
  have vp: "\<forall>x\<in>set vp. x \<in> set (uploads (session st)) \<and> u_media_type x = ''video''"
    using set_mset_mono [OF mv] approved_rows [of _ "session st" "''video''"] by auto
  have own: "get_upload (committed st') (u_id x) = Some x" if "x \<in> set (uploads (session st))" for x
    using that assms(1) by (simp add: get_upload_own u)
  have count: "length (entries_of_type (committed st') (p_id pl) mt) =
               length (filter (\<lambda>x. u_media_type x = mt) ap) + length (filter (\<lambda>x. u_media_type x = mt) vp)"
    for mt
  proof -
    have "length (entries_of_type (committed st') (p_id pl) mt) =
          length (filter (?ty mt) (map e_upload_id ?E))"
      by (simp add: entries_of_type_def filter_map comp_def)
    also have "\<dots> = length (filter (\<lambda>x. ?ty mt (u_id x)) sel)"
      by (simp add: ids filter_map comp_def)
    also have "\<dots> = length (filter (\<lambda>x. ?ty mt (u_id x)) (ap @ vp))"
      by (rule same_mset_filter_length) (simp add: m)
    also have "filter (\<lambda>x. ?ty mt (u_id x)) (ap @ vp) = filter (\<lambda>x. u_media_type x = mt) (ap @ vp)"
      using ap vp own by (intro filter_cong [OF refl]) auto
    finally show ?thesis by simp
  qed
  have a_a: "filter (\<lambda>x. u_media_type x = ''audio'') ap = ap" using ap by simp
  have a_v: "filter (\<lambda>x. u_media_type x = ''audio'') vp = []" using vp by simp
  have v_a: "filter (\<lambda>x. u_media_type x = ''video'') ap = []" using ap by simp
  have v_v: "filter (\<lambda>x. u_media_type x = ''video'') vp = vp" using vp by simp
  have c1: "length (entries_of_type (committed st') (p_id pl) ''audio'') = min 35 (length ?A)"
    by (simp only: count a_a a_v la) simp
  have c2: "length (entries_of_type (committed st') (p_id pl) ''video'') = min 15 (length ?V)"
    by (simp only: count v_a v_v lv) simp
  have "length (map e_upload_id ?E) = length (map u_id sel)" by (simp only: ids)
  then have "length ?E = length sel" by simp
  moreover from m have "size (mset sel) = size (mset ap + mset vp)" by (rule arg_cong)
  ultimately have c3: "length ?E = min 35 (length ?A) + min 15 (length ?V)"
    by (simp add: la lv)
  from c1 c2 c3 show ?thesis by auto
qed

text \<open>
  C10. Whenever \<open>create_daily_playlist\<close> returns a playlist (upload keys unique, entries
  belonging to existing playlists), the upload ids of its entries are pairwise different:
  no content item is referenced twice.
\<close>

theorem create_daily_playlist_no_duplicates:
  assumes "distinct (map u_id (uploads (session st)))"
      and "\<forall>e\<in>set (entries (session st)). e_playlist_id e \<in> p_id ` set (playlists (session st))"
      and "create_daily_playlist ev date st = (Inr (Some pl), st')"
  shows "distinct (map e_upload_id (playlist_entries (committed st') (p_id pl)))"
proof -
  let ?A = "approved (session st) ''audio''"
  let ?V = "approved (session st) ''video''"
  have ne: "?A \<noteq> [] \<or> ?V \<noteq> []"
    using create_daily_playlist_none [of st ev date] assms(3) by auto
  from create_daily_playlist_entries [OF ne assms(2), of ev date] assms(3) obtain sel ap vp where
    ids: "map e_upload_id (playlist_entries (committed st') (p_id pl)) = map u_id sel"
    and m: "mset sel = mset ap + mset vp"
    and ma: "mset ap \<subseteq># mset ?A" and mv: "mset vp \<subseteq># mset ?V"
    by auto
  have "mset ?A + mset ?V \<subseteq># mset (uploads (session st))"
    unfolding approved_def by (rule disjoint_filters_submset) auto
  moreover have "mset ap + mset vp \<subseteq># mset ?A + mset ?V"
    using ma mv by (rule subset_mset.add_mono)
  ultimately have "mset sel \<subseteq># mset (uploads (session st))"
    unfolding m by (rule subset_mset.trans [rotated])
  then have "image_mset u_id (mset sel) \<subseteq># image_mset u_id (mset (uploads (session st)))"
    by (rule image_mset_subseteq_mono)
  then have "mset (map u_id sel) \<subseteq># mset (map u_id (uploads (session st)))" by simp
  then have "distinct (map u_id sel)" using assms(1) by (rule distinct_submset)
  then show ?thesis by (simp only: ids)
qed

text \<open>
  C7. \<open>create_daily_playlist\<close> gives its no-content result (\<open>None\<close>, the code's form of
  NoContentError) exactly when the approved-audio pool and the approved-video pool are
  both empty, and then leaves the state untouched; whenever one of the pools is not
  empty it returns a playlist, which is in the committed store, and never an error.
\<close>

theorem create_daily_playlist_no_content:
  "(fst (create_daily_playlist ev date st) = Inr None) =
     (approved (session st) ''audio'' = [] \<and> approved (session st) ''video'' = []) \<and>
   (approved (session st) ''audio'' = [] \<and> approved (session st) ''video'' = [] \<longrightarrow>
      snd (create_daily_playlist ev date st) = st) \<and>
   (approved (session st) ''audio'' \<noteq> [] \<or> approved (session st) ''video'' \<noteq> [] \<longrightarrow>
      (\<exists>pl. fst (create_daily_playlist ev date st) = Inr (Some pl) \<and>
            pl \<in> set (playlists (committed (snd (create_daily_playlist ev date st))))))"
proof -
  let ?none = "approved (session st) ''audio'' = [] \<and> approved (session st) ''video'' = []"
  have a: "?none \<Longrightarrow> create_daily_playlist ev date st = (Inr None, st)"
    using create_daily_playlist_none [of st ev date] by blast
  have b: "\<exists>pl. fst (create_daily_playlist ev date st) = Inr (Some pl) \<and>
            pl \<in> set (playlists (committed (snd (create_daily_playlist ev date st))))"
    if "\<not> ?none"
  proof -
    from that have ne: "approved (session st) ''audio'' \<noteq> [] \<or> approved (session st) ''video'' \<noteq> []"
      by blast
    from create_daily_playlist_some [OF ne, of ev date] obtain pl sel where
      r: "fst (create_daily_playlist ev date st) = Inr (Some pl)"
      and com: "committed (snd (create_daily_playlist ev date st)) =
          add_entries (p_id pl) 0 sel ((session st)\<lparr>playlists := playlists (session st) @ [pl]\<rparr>)"
      by blast
    have "pl \<in> set (playlists (committed (snd (create_daily_playlist ev date st))))"
      by (simp add: com add_entries_rest)
    with r show ?thesis by blast
  qed
  from a b show ?thesis by (cases ?none) auto
qed


theorem create_daily_playlist_positions_witness:
  "length (filter (\<lambda>u. u_status u = ''approved'') (uploads (session demo_state))) = 3 \<and>
   list_all (\<lambda>u. u_media_type u = ''audio'' \<or> u_media_type u = ''video'')
     (uploads (session demo_state)) \<and>
   set (map e_playlist_id (entries (session demo_state))) \<subseteq>
     set (map p_id (playlists (session demo_state))) \<and>
   map e_position (playlist_entries
      (committed (snd (create_daily_playlist demo_env None demo_state))) 3) = [0, 1, 2]"
proof -
  let ?r = "create_daily_playlist demo_env None demo_state"
  have h0: "\<exists>u\<in>set (uploads (session demo_state)). u_status u = ''approved''"
    by code_simp
  have h1: "\<forall>u\<in>set (uploads (session demo_state)).
       u_media_type u = ''audio'' \<or> u_media_type u = ''video''"
    by code_simp
  have h2: "\<forall>e\<in>set (entries (session demo_state)).
       e_playlist_id e \<in> p_id ` set (playlists (session demo_state))"
    by code_simp
  from create_daily_playlist_positions [OF h0 h1 h2, of demo_env None] obtain pl st' where
    res: "?r = (Inr (Some pl), st')"
    and pos: "map e_position (playlist_entries (committed st') (p_id pl)) =
             [0..<length (playlist_entries (committed st') (p_id pl))]"
    by blast
  have i: "(case fst ?r of Inr (Some q) \<Rightarrow> p_id q | _ \<Rightarrow> 0) = 3" by code_simp
  have pid: "p_id pl = 3" using i by (simp add: res)
  have st': "st' = snd ?r" by (simp add: res)
  have len: "length (playlist_entries (committed (snd ?r)) 3) = 3" by code_simp
  from pos have "map e_position (playlist_entries (committed (snd ?r)) 3) = [0..<3]"
    unfolding pid st' len .
  also have "[0..<3] = [0, 1, 2::nat]" by code_simp
  finally have c: "map e_position (playlist_entries (committed (snd ?r)) 3) = [0, 1, 2]" .
  have la: "length (filter (\<lambda>u. u_status u = ''approved'') (uploads (session demo_state))) = 3"
    by code_simp
  have lv: "list_all (\<lambda>u. u_media_type u = ''audio'' \<or> u_media_type u = ''video'')
     (uploads (session demo_state))" by code_simp
  have fk: "set (map e_playlist_id (entries (session demo_state))) \<subseteq>
     set (map p_id (playlists (session demo_state)))" by code_simp
  from la lv fk c show ?thesis by blast
qed

theorem create_daily_playlist_counts_witness:
  "distinct (map u_id (uploads (session forty_audio))) \<and>
   entries (session forty_audio) = [] \<and>
   length (approved (session forty_audio) ''audio'') = 40 \<and>
   approved (session forty_audio) ''video'' = [] \<and>
   length (playlist_entries (committed (snd (create_daily_playlist demo_env None forty_audio))) 1) = 35"
proof -
  let ?r = "create_daily_playlist demo_env None forty_audio"
  have h1: "distinct (map u_id (uploads (session forty_audio)))" by code_simp
  have h2: "\<forall>e\<in>set (entries (session forty_audio)).
       e_playlist_id e \<in> p_id ` set (playlists (session forty_audio))" by code_simp
  have a: "length (approved (session forty_audio) ''audio'') = 40" by code_simp
  have v: "approved (session forty_audio) ''video'' = []" by code_simp
  have ne: "approved (session forty_audio) ''audio'' \<noteq> [] \<or> approved (session forty_audio) ''video'' \<noteq> []"
    using a by auto
  from create_daily_playlist_some [OF ne, of demo_env None] obtain pl where
    r: "fst ?r = Inr (Some pl)" and pid: "p_id pl = next_id (map p_id (playlists (session forty_audio)))"
    by blast
  have "next_id (map p_id (playlists (session forty_audio))) = 1" by code_simp
  with pid have pid1: "p_id pl = 1" by simp
  from r have res: "?r = (Inr (Some pl), snd ?r)" by (metis prod.collapse)
  from create_daily_playlist_counts [OF h1 h2 res] a v
  have "length (playlist_entries (committed (snd ?r)) (p_id pl)) = 35" by blast
  moreover have "entries (session forty_audio) = []" by code_simp
  ultimately show ?thesis using h1 a v unfolding pid1 by blast
qed

theorem create_daily_playlist_no_duplicates_witness:
  "distinct (map u_id (uploads (session demo_state))) \<and>
   set (map e_playlist_id (entries (session demo_state))) \<subseteq>
     set (map p_id (playlists (session demo_state))) \<and>
   distinct (map e_upload_id (playlist_entries
      (committed (snd (create_daily_playlist demo_env None demo_state))) 3))"
proof -
  let ?r = "create_daily_playlist demo_env None demo_state"
  have h1: "distinct (map u_id (uploads (session demo_state)))" by code_simp
  have h2: "\<forall>e\<in>set (entries (session demo_state)).
       e_playlist_id e \<in> p_id ` set (playlists (session demo_state))" by code_simp
  have ne: "approved (session demo_state) ''audio'' \<noteq> [] \<or> approved (session demo_state) ''video'' \<noteq> []"
    by code_simp
  from create_daily_playlist_some [OF ne, of demo_env None] obtain pl where
    r: "fst ?r = Inr (Some pl)" and pid: "p_id pl = next_id (map p_id (playlists (session demo_state)))"
    by blast
  have "next_id (map p_id (playlists (session demo_state))) = 3" by code_simp
  with pid have pid3: "p_id pl = 3" by simp
  from r have res: "?r = (Inr (Some pl), snd ?r)" by (metis prod.collapse)
  have fk: "set (map e_playlist_id (entries (session demo_state))) \<subseteq>
     set (map p_id (playlists (session demo_state)))" by code_simp
  from create_daily_playlist_no_duplicates [OF h1 h2 res] h1 fk show ?thesis
    unfolding pid3 by blast
qed

theorem create_daily_playlist_no_content_witness:
  "approved (session silent) ''audio'' = [] \<and> approved (session silent) ''video'' = [] \<and>
   fst (create_daily_playlist demo_env None silent) = Inr None \<and>
   snd (create_daily_playlist demo_env None silent) = silent \<and>
   length (approved (session demo_state) ''audio'') = 2 \<and>
   (\<exists>pl. fst (create_daily_playlist demo_env None demo_state) = Inr (Some pl) \<and>
         pl \<in> set (playlists (committed (snd (create_daily_playlist demo_env None demo_state)))))"
proof -
  have e: "approved (session silent) ''audio'' = [] \<and> approved (session silent) ''video'' = []"
    by code_simp
  have ne: "approved (session demo_state) ''audio'' \<noteq> [] \<or> approved (session demo_state) ''video'' \<noteq> []"
    by code_simp
  from create_daily_playlist_no_content [of demo_env None silent] e
  have a: "fst (create_daily_playlist demo_env None silent) = Inr None"
    "snd (create_daily_playlist demo_env None silent) = silent"
    by blast+
  from create_daily_playlist_no_content [of demo_env None demo_state] ne
  have b: "\<exists>pl. fst (create_daily_playlist demo_env None demo_state) = Inr (Some pl) \<and>
         pl \<in> set (playlists (committed (snd (create_daily_playlist demo_env None demo_state))))"
    by blast
  have la: "length (approved (session demo_state) ''audio'') = 2" by code_simp
  from e a la b show ?thesis by blast
qed

subsection \<open>Segment generation\<close>

lemma select_personality_state:
  "snd (select_personality ev t st) = st\<lparr>rng := shift 1 (rng st)\<rparr>"
  by (simp add: select_personality_def choice_def Let_def)

lemma select_personality_bucket:
  "fst (select_personality ev None st) \<in> set (personalities_for (dt_hour (now ev)))"
proof -
  have "length (personalities_for h) = 2" for h
    by (simp add: personalities_for_def)
  then have "rng st 0 mod length (personalities_for (dt_hour (now ev))) < length (personalities_for (dt_hour (now ev)))"
    by simp
  then show ?thesis
    by (simp add: select_personality_def choice_def Let_def)
qed

lemma fallback_text_nonempty: "i_text (generate_fallback_intro md p) \<noteq> []"
  by (simp add: generate_fallback_intro_def templates_def professional_template_def)

lemma generate_intro_some:
  "\<exists>intro_r. generate_intro ev md st =
     (Some intro_r, st\<lparr>rng := shift 1 (rng st), ai_requests := Suc (ai_requests st)\<rparr>)"
proof -
  obtain p st1 where sp: "select_personality ev None st = (p, st1)"
    by (cases "select_personality ev None st")
  with select_personality_state [of ev None st] have st1: "st1 = st\<lparr>rng := shift 1 (rng st)\<rparr>"
    by simp
  show ?thesis
    by (cases "ai_brain ev (ai_requests st)")
       (simp_all add: generate_intro_def sp call_ai_brain_def st1)
qed


lemma generate_intro_fallback:
  assumes "\<forall>t. ai_brain ev (ai_requests st) \<noteq> Text t"
  shows "fst (generate_intro ev md st) =
           Some (generate_fallback_intro md
                   (if ai_brain ev (ai_requests st) = BadText then ''professional''
                    else fst (select_personality ev None st)))"
proof -
  obtain p st1 where sp: "select_personality ev None st = (p, st1)"
    by (cases "select_personality ev None st")
  with select_personality_state [of ev None st] have st1: "st1 = st\<lparr>rng := shift 1 (rng st)\<rparr>"
    by simp
  show ?thesis using assms
    by (cases "ai_brain ev (ai_requests st)")
       (simp_all add: generate_intro_def sp call_ai_brain_def st1)
qed

lemma generate_audio_state:
  "session (snd (generate_audio ev t n st)) = session st \<and>
   committed (snd (generate_audio ev t n st)) = committed st \<and>
   ai_requests (snd (generate_audio ev t n st)) = ai_requests st"
  by (simp add: generate_audio_def Let_def split: option.splits)

lemma generate_audio_failed:
  "tts_brain ev (tts_requests st) = None \<Longrightarrow>
   generate_audio ev t n st = (None, st\<lparr>tts_requests := Suc (tts_requests st)\<rparr>)"
  by (simp add: generate_audio_def Let_def)

lemma find_append_None: "find P xs = None \<Longrightarrow> find P (xs @ ys) = find P ys"
  by (induction xs) (auto split: if_splits)

lemma first_segment_added:
  "first_segment (session st) i = None \<Longrightarrow> s_upload_id seg = i \<Longrightarrow>
   first_segment (session (add_segment seg st)) i = Some seg"
  by (simp add: first_segment_def add_segment_def find_append_None)

lemma add_segment_rest:
  "uploads (session (add_segment seg st)) = uploads (session st) \<and>
   playlists (session (add_segment seg st)) = playlists (session st) \<and>
   entries (session (add_segment seg st)) = entries (session st) \<and>
   segments (session (add_segment seg st)) = segments (session st) @ [seg]"
  by (simp add: add_segment_def)

lemma get_upload_cong: "uploads d = uploads d' \<Longrightarrow> get_upload d i = get_upload d' i"
  by (simp add: get_upload_def)

lemma app_context_fresh: "session st = committed st \<Longrightarrow> app_context st = st"
  by (cases st) (simp add: app_context_def)

lemma app_context_db [simp]:
  "session (app_context st) = committed st" "committed (app_context st) = committed st"
  by (simp_all add: app_context_def)

text \<open>
  One run of the body of the task. It succeeds only for an item without a Segment, and
  then the committed store has gained exactly the Segment whose id is returned; when it
  raises, the committed store is as before.
\<close>

lemma generate_dj_intro_body_success:
  assumes "generate_dj_intro_body ev i st = (Inr (Success sid t p), st1)"
  shows "session st1 = committed st1 \<and> get_upload (committed st1) i \<noteq> None \<and>
         (\<exists>seg. segments (committed st1) = segments (committed st) @ [seg] \<and>
                s_id seg = sid \<and> s_upload_id seg = i \<and>
                first_segment (committed st1) i = Some seg)"
proof -
  let ?st = "app_context st"
  from assms obtain u where u: "get_upload (session ?st) i = Some u"
    by (cases "get_upload (session ?st) i") (simp_all add: generate_dj_intro_body_def Let_def)
  from assms u have none: "first_segment (session ?st) i = None"
    by (cases "first_segment (session ?st) i") (simp_all add: generate_dj_intro_body_def Let_def)
  let ?sta = "?st\<lparr>rng := shift 1 (rng ?st), ai_requests := Suc (ai_requests ?st)\<rparr>"
  from generate_intro_some [of ev "metadata_of u" ?st] obtain intro_r where
    gi: "generate_intro ev (metadata_of u) ?st = (Some intro_r, ?sta)" by blast
  let ?n = "''intro_'' @ show_nat i @ ''_'' @ show_int (u_uploaded_ts u)"
  obtain audio st2 where ga: "generate_audio ev (i_text intro_r) ?n ?sta = (audio, st2)"
    by (cases "generate_audio ev (i_text intro_r) ?n ?sta")
  from generate_audio_state [of ev "i_text intro_r" ?n ?sta] ga
  have s2: "session st2 = session ?st" by simp
  from assms u none gi ga obtain path where path: "audio = Some path"
    by (cases audio) (simp_all add: generate_dj_intro_body_def Let_def)
  let ?seg = "\<lparr>s_id = next_id (map s_id (segments (session st2))), s_upload_id = i,
               dj_intro_text = i_text intro_r, dj_intro_audio = Some path,
               position_in_playlist = None\<rparr>"
  let ?st3 = "commit (add_segment ?seg st2)"
  from assms u none gi ga path
  have res: "sid = s_id ?seg" "st1 = app_context ?st3"
    by (auto simp: generate_dj_intro_body_def Let_def)
  have c1: "session st1 = committed st1" by (simp add: res)
  have com: "committed st1 = session (add_segment ?seg st2)"
    by (simp add: res commit_def)
  have "first_segment (session st2) i = None" using none by (simp only: s2)
  then have f: "first_segment (session (add_segment ?seg st2)) i = Some ?seg"
    by (rule first_segment_added) simp
  have "segments (session (add_segment ?seg st2)) = segments (session st2) @ [?seg]"
    by (simp add: add_segment_rest)
  then have g: "segments (committed st1) = segments (committed st) @ [?seg]"
    by (simp add: com s2)
  have c3: "\<exists>seg. segments (committed st1) = segments (committed st) @ [seg] \<and>
                s_id seg = sid \<and> s_upload_id seg = i \<and>
                first_segment (committed st1) i = Some seg"
  proof (intro exI conjI)
    show "segments (committed st1) = segments (committed st) @ [?seg]" by (rule g)
    show "s_id ?seg = sid" by (simp add: res(1))
    show "s_upload_id ?seg = i" by simp
    show "first_segment (committed st1) i = Some ?seg" using f by (simp only: com)
  qed
  have "get_upload (session (add_segment ?seg st2)) i = get_upload (session st2) i"
    by (rule get_upload_cong) (simp add: add_segment_rest)
  with u have c2: "get_upload (committed st1) i \<noteq> None" by (simp add: com s2)
  from c1 c2 c3 show ?thesis by blast
qed

lemma generate_dj_intro_body_raises:
  assumes "generate_dj_intro_body ev i st = (Inl e, st1)"
  shows "committed st1 = committed st"
proof -
  let ?st = "app_context st"
  from assms obtain u where u: "get_upload (session ?st) i = Some u"
    by (cases "get_upload (session ?st) i") (simp_all add: generate_dj_intro_body_def Let_def)
  from assms u have none: "first_segment (session ?st) i = None"
    by (cases "first_segment (session ?st) i") (simp_all add: generate_dj_intro_body_def Let_def)
  let ?sta = "?st\<lparr>rng := shift 1 (rng ?st), ai_requests := Suc (ai_requests ?st)\<rparr>"
  from generate_intro_some [of ev "metadata_of u" ?st] obtain intro_r where
    gi: "generate_intro ev (metadata_of u) ?st = (Some intro_r, ?sta)" by blast
  let ?n = "''intro_'' @ show_nat i @ ''_'' @ show_int (u_uploaded_ts u)"
  obtain audio st2 where ga: "generate_audio ev (i_text intro_r) ?n ?sta = (audio, st2)"
    by (cases "generate_audio ev (i_text intro_r) ?n ?sta")
  from generate_audio_state [of ev "i_text intro_r" ?n ?sta] ga
  have c2: "committed st2 = committed st" by simp
  from assms u none gi ga have "st1 = app_context st2"
    by (cases audio) (simp_all add: generate_dj_intro_body_def Let_def)
  with c2 show ?thesis by simp
qed

lemma generate_dj_intro_body_audio_failed:
  assumes "get_upload (committed st) i \<noteq> None"
      and "first_segment (committed st) i = None"
      and "tts_brain ev (tts_requests st) = None"
  shows "fst (generate_dj_intro_body ev i st) =
           Inl (GenerationFailed ''Failed to generate intro audio'')"
proof -
  let ?st = "app_context st"
  from assms(1) obtain u where u: "get_upload (session ?st) i = Some u" by auto
  have none: "first_segment (session ?st) i = None" using assms(2) by simp
  let ?sta = "?st\<lparr>rng := shift 1 (rng ?st), ai_requests := Suc (ai_requests ?st)\<rparr>"
  from generate_intro_some [of ev "metadata_of u" ?st] obtain intro_r where
    gi: "generate_intro ev (metadata_of u) ?st = (Some intro_r, ?sta)" by blast
  let ?n = "''intro_'' @ show_nat i @ ''_'' @ show_int (u_uploaded_ts u)"
  have "tts_brain ev (tts_requests ?sta) = None" using assms(3) by (simp add: app_context_def)
  then have ga: "generate_audio ev (i_text intro_r) ?n ?sta =
                   (None, ?sta\<lparr>tts_requests := Suc (tts_requests ?sta)\<rparr>)"
    by (rule generate_audio_failed)
  have "generate_dj_intro_body ev i st =
          (case generate_audio ev (i_text intro_r) ?n ?sta of
             (None, st2) \<Rightarrow>
               (Inl (GenerationFailed ''Failed to generate intro audio''), app_context st2)
           | (Some path, st2) \<Rightarrow>
               (let seg = \<lparr>s_id = next_id (map s_id (segments (session st2))),
                           s_upload_id = i, dj_intro_text = i_text intro_r,
                           dj_intro_audio = Some path, position_in_playlist = None\<rparr>;
                    st3 = commit (add_segment seg st2)
                in (Inr (Success (s_id seg) (take 100 (i_text intro_r) @ ''...'')
                           (i_personality intro_r)),
                    app_context st3)))"
    by (simp add: generate_dj_intro_body_def Let_def u none gi del: app_context_db)
  then show ?thesis by (simp only: ga prod.case option.case fst_conv)
qed

lemma generate_dj_intro_body_skipped:
  assumes "session st = committed st" and "get_upload (committed st) i \<noteq> None"
      and "first_segment (committed st) i \<noteq> None"
  shows "generate_dj_intro_body ev i st = (Inr (Skipped ''Intro already exists''), st)"
proof -
  have a: "app_context st = st" using assms(1) by (rule app_context_fresh)
  from assms show ?thesis
    by (auto simp: generate_dj_intro_body_def a)
qed

text \<open>The task with its retries.\<close>

lemma generate_dj_intro_success:
  "generate_dj_intro ev r i st = (Success sid t p, st1) \<Longrightarrow>
   session st1 = committed st1 \<and> get_upload (committed st1) i \<noteq> None \<and>
   (\<exists>seg. segments (committed st1) = segments (committed st) @ [seg] \<and>
          s_id seg = sid \<and> s_upload_id seg = i \<and>
          first_segment (committed st1) i = Some seg)"
proof (induction ev r i st rule: generate_dj_intro.induct)
  case (1 ev retries upload_id st)
  obtain res st' where b: "generate_dj_intro_body ev upload_id st = (res, st')"
    by (cases "generate_dj_intro_body ev upload_id st")
  show ?case
  proof (cases res)
    case (Inr x)
    with "1.prems" b have "generate_dj_intro_body ev upload_id st = (Inr (Success sid t p), st1)"
      by (simp add: generate_dj_intro.simps)
    then show ?thesis by (rule generate_dj_intro_body_success)
  next
    case (Inl e)
    with b have "generate_dj_intro_body ev upload_id st = (Inl e, st')" by simp
    then have same: "committed st' = committed st" by (rule generate_dj_intro_body_raises)
    show ?thesis
    proof (cases "retries < max_retries")
      case True
      with "1.prems" b Inl
      have "generate_dj_intro ev (Suc retries) upload_id st' = (Success sid t p, st1)"
        by (simp add: generate_dj_intro.simps [of ev retries])
      from "1.IH" [OF b [symmetric] Inl True this]
      have "session st1 = committed st1 \<and> get_upload (committed st1) upload_id \<noteq> None \<and>
            (\<exists>seg. segments (committed st1) = segments (committed st') @ [seg] \<and>
                   s_id seg = sid \<and> s_upload_id seg = upload_id \<and>
                   first_segment (committed st1) upload_id = Some seg)" .
      then show ?thesis by (simp add: same)
    next
      case False
      with "1.prems" b Inl show ?thesis
        by (simp add: generate_dj_intro.simps [of ev retries])
    qed
  qed
qed

lemma generate_dj_intro_skipped:
  assumes "session st = committed st" and "get_upload (committed st) i \<noteq> None"
      and "first_segment (committed st) i \<noteq> None"
  shows "generate_dj_intro ev r i st = (Skipped ''Intro already exists'', st)"
  using generate_dj_intro_body_skipped [OF assms, of ev]
  by (simp add: generate_dj_intro.simps [of ev r])

lemma generate_dj_intro_audio_failed:
  "\<forall>n. tts_brain ev n = None \<Longrightarrow> get_upload (committed st) i \<noteq> None \<Longrightarrow>
   first_segment (committed st) i = None \<Longrightarrow>
   fst (generate_dj_intro ev r i st) = TaskError ''Failed to generate intro audio'' \<and>
   committed (snd (generate_dj_intro ev r i st)) = committed st"
proof (induction ev r i st rule: generate_dj_intro.induct)
  case (1 ev retries upload_id st)
  let ?e = "GenerationFailed ''Failed to generate intro audio''"
  obtain res st' where b: "generate_dj_intro_body ev upload_id st = (res, st')"
    by (cases "generate_dj_intro_body ev upload_id st")
  have "tts_brain ev (tts_requests st) = None" using "1.prems"(1) by simp
  from generate_dj_intro_body_audio_failed [OF "1.prems"(2) "1.prems"(3) this] b
  have res: "res = Inl ?e" by simp
  with b have b': "generate_dj_intro_body ev upload_id st = (Inl ?e, st')" by simp
  then have same: "committed st' = committed st" by (rule generate_dj_intro_body_raises)
  show ?case
  proof (cases "retries < max_retries")
    case True
    have step: "generate_dj_intro ev retries upload_id st =
                  generate_dj_intro ev (Suc retries) upload_id st'"
      using True b' by (simp add: generate_dj_intro.simps [of ev retries])
    have "fst (generate_dj_intro ev (Suc retries) upload_id st') =
            TaskError ''Failed to generate intro audio'' \<and>
          committed (snd (generate_dj_intro ev (Suc retries) upload_id st')) = committed st'"
      using "1.IH" [OF b [symmetric] res True "1.prems"(1)] "1.prems"(2) "1.prems"(3)
      by (simp add: same)
    then show ?thesis by (simp only: step same)
  next
    case False
    then have "generate_dj_intro ev retries upload_id st = (TaskError (message ?e), st')"
      using b' by (simp add: generate_dj_intro.simps [of ev retries])
    then show ?thesis by (simp add: message_def same)
  qed
qed

text \<open>
  C3 (as amended). The task \<open>generate_dj_intro\<close> is idempotent once it has succeeded.
  When an invocation for a content item succeeds with a Segment id, the committed store
  has gained exactly one Segment, the one with that id, and it is the Segment found for
  the item; a second invocation in sequence then ends as skipped and leaves the whole
  state as it is: no Segment is created and neither the Narration Service nor the
  speech synthesis is contacted again, whatever they would have answered.
\<close>

theorem segment_generation_idempotent:
  assumes "generate_dj_intro ev r j st = (Success sid t p, st2)"
  shows "(\<exists>seg. segments (committed st2) = segments (committed st) @ [seg] \<and>
                s_id seg = sid \<and> s_upload_id seg = j \<and>
                first_segment (committed st2) j = Some seg) \<and>
         generate_dj_intro ev' r' j st2 = (Skipped ''Intro already exists'', st2)"
proof -
  from generate_dj_intro_success [OF assms]
  have a: "session st2 = committed st2" and b: "get_upload (committed st2) j \<noteq> None"
    and c: "\<exists>seg. segments (committed st2) = segments (committed st) @ [seg] \<and>
                s_id seg = sid \<and> s_upload_id seg = j \<and>
                first_segment (committed st2) j = Some seg"
    by blast+
  from c have d: "first_segment (committed st2) j \<noteq> None" by auto
  from c generate_dj_intro_skipped [OF a b d, of ev' r'] show ?thesis by blast
qed

theorem segment_generation_idempotent_witness:
  "fst (generate_dj_intro demo_env_up 0 1 demo_state) =
     Success 1 ''Hello from the AI DJ!...'' ''professional'' \<and>
   segments (committed demo_state) = [] \<and>
   map s_id (segments (committed (snd (generate_dj_intro demo_env_up 0 1 demo_state)))) = [1] \<and>
   map s_upload_id (segments (committed (snd (generate_dj_intro demo_env_up 0 1 demo_state)))) = [1] \<and>
   generate_dj_intro demo_env 0 1 (snd (generate_dj_intro demo_env_up 0 1 demo_state)) =
     (Skipped ''Intro already exists'', snd (generate_dj_intro demo_env_up 0 1 demo_state))"
proof -
  let ?d = "generate_dj_intro demo_env_up 0 1 demo_state"
  have d: "fst ?d = Success 1 ''Hello from the AI DJ!...'' ''professional''" by code_simp
  then have d': "?d = (Success 1 ''Hello from the AI DJ!...'' ''professional'', snd ?d)"
    by (metis prod.collapse)
  have e: "segments (committed demo_state) = []" by code_simp
  from segment_generation_idempotent [OF d', of demo_env 0] d e show ?thesis by auto
qed

text \<open>
  The claim as stated fails for the task: with an AI Brain whose speech synthesis
  fails, \<open>generate_dj_intro\<close> ends in an error after four attempts and no Segment,
  and a second invocation contacts the Narration Service four more times and again
  creates nothing.
\<close>

theorem segment_generation_twice_counterexample:
  "fst (generate_dj_intro demo_env 0 1 demo_state) = TaskError ''Failed to generate intro audio'' \<and>
   length (segments (committed (snd (generate_dj_intro demo_env 0 1 demo_state)))) = 0 \<and>
   ai_requests (snd (generate_dj_intro demo_env 0 1 demo_state)) = 4 \<and>
   fst (generate_dj_intro demo_env 0 1 (snd (generate_dj_intro demo_env 0 1 demo_state))) =
     TaskError ''Failed to generate intro audio'' \<and>
   length (segments (committed (snd (generate_dj_intro demo_env 0 1
      (snd (generate_dj_intro demo_env 0 1 demo_state)))))) = 0 \<and>
   ai_requests (snd (generate_dj_intro demo_env 0 1
      (snd (generate_dj_intro demo_env 0 1 demo_state)))) = 8"
  by code_simp

text \<open>
  C4 (as amended). For every content item, when the Narration Service gives no usable
  text, \<open>generate_intro\<close> still returns a templated intro whose text is not empty: the
  template of a personality drawn at random from the bucket of the hour when the request
  failed, timed out or came back without a text, and the professional template, whatever
  the hour, when the reply made the call raise. When the speech synthesis then fails, the
  task \<open>generate_dj_intro\<close> raises ``Failed to generate intro audio''; if the synthesis
  fails at every attempt the task ends, after its retries, with that error, and the
  committed store is as it was: no Segment is persisted and the text is not kept.
\<close>

theorem narration_and_audio_failure:
  "((\<forall>t. ai_brain ev (ai_requests st) \<noteq> Text t) \<longrightarrow>
      fst (generate_intro ev md st) =
        Some (generate_fallback_intro md
                (if ai_brain ev (ai_requests st) = BadText then ''professional''
                 else fst (select_personality ev None st))) \<and>
      fst (select_personality ev None st) \<in> set (personalities_for (dt_hour (now ev))) \<and>
      (\<exists>intro_r. fst (generate_intro ev md st) = Some intro_r \<and> i_text intro_r \<noteq> [])) \<and>
   (get_upload (committed st) i \<noteq> None \<and> first_segment (committed st) i = None \<and>
    tts_brain ev (tts_requests st) = None \<longrightarrow>
      fst (generate_dj_intro_body ev i st) =
        Inl (GenerationFailed ''Failed to generate intro audio'') \<and>
      committed (snd (generate_dj_intro_body ev i st)) = committed st) \<and>
   (get_upload (committed st) i \<noteq> None \<and> first_segment (committed st) i = None \<and>
    (\<forall>n. tts_brain ev n = None) \<longrightarrow>
      fst (generate_dj_intro ev r i st) = TaskError ''Failed to generate intro audio'' \<and>
      committed (snd (generate_dj_intro ev r i st)) = committed st)"
proof (intro conjI impI)
  assume a: "\<forall>t. ai_brain ev (ai_requests st) \<noteq> Text t"
  let ?p = "if ai_brain ev (ai_requests st) = BadText then ''professional''
            else fst (select_personality ev None st)"
  show g: "fst (generate_intro ev md st) = Some (generate_fallback_intro md ?p)"
    using a by (rule generate_intro_fallback)
  show "fst (select_personality ev None st) \<in> set (personalities_for (dt_hour (now ev)))"
    by (rule select_personality_bucket)
  show "\<exists>intro_r. fst (generate_intro ev md st) = Some intro_r \<and> i_text intro_r \<noteq> []"
  proof (intro exI conjI)
    show "fst (generate_intro ev md st) = Some (generate_fallback_intro md ?p)" by (rule g)
    show "i_text (generate_fallback_intro md ?p) \<noteq> []" by (rule fallback_text_nonempty)
  qed
next
  assume b: "get_upload (committed st) i \<noteq> None \<and> first_segment (committed st) i = None \<and>
             tts_brain ev (tts_requests st) = None"
  then show f: "fst (generate_dj_intro_body ev i st) =
                  Inl (GenerationFailed ''Failed to generate intro audio'')"
    by (intro generate_dj_intro_body_audio_failed) simp_all
  then have "generate_dj_intro_body ev i st =
               (Inl (GenerationFailed ''Failed to generate intro audio''),
                snd (generate_dj_intro_body ev i st))"
    by (metis prod.collapse)
  then show "committed (snd (generate_dj_intro_body ev i st)) = committed st"
    by (rule generate_dj_intro_body_raises)
next
  assume c: "get_upload (committed st) i \<noteq> None \<and> first_segment (committed st) i = None \<and>
             (\<forall>n. tts_brain ev n = None)"
  then have r: "fst (generate_dj_intro ev r i st) = TaskError ''Failed to generate intro audio'' \<and>
        committed (snd (generate_dj_intro ev r i st)) = committed st"
    by (intro generate_dj_intro_audio_failed) simp_all
  from r show "fst (generate_dj_intro ev r i st) = TaskError ''Failed to generate intro audio''"
    by (rule conjunct1)
  from r show "committed (snd (generate_dj_intro ev r i st)) = committed st"
    by (rule conjunct2)
qed

theorem narration_and_audio_failure_witness:
  "ai_brain demo_env (ai_requests demo_state) = Failed \<and>
   ai_brain garbled (ai_requests demo_state) = BadText \<and>
   tts_brain demo_env = (\<lambda>n. None) \<and>
   get_upload (committed demo_state) 1 \<noteq> None \<and>
   first_segment (committed demo_state) 1 = None \<and>
   fst (generate_intro demo_env (metadata_of (demo_upload 1 ''audio'' (Some ''/m/a.mp3'')))
          demo_state) =
     Some \<lparr>i_text = professional_template (metadata_of (demo_upload 1 ''audio'' (Some ''/m/a.mp3''))),
           i_personality = ''professional''\<rparr> \<and>
   personalities_for (dt_hour (now demo_env)) = [''energetic'', ''professional''] \<and>
   fst (generate_intro garbled (metadata_of (demo_upload 1 ''audio'' (Some ''/m/a.mp3'')))
          demo_state) =
     Some \<lparr>i_text = professional_template (metadata_of (demo_upload 1 ''audio'' (Some ''/m/a.mp3''))),
           i_personality = ''professional''\<rparr> \<and>
   personalities_for (dt_hour (now garbled)) = [''energetic'', ''quirky''] \<and>
   fst (generate_dj_intro_body demo_env 1 demo_state) =
     Inl (GenerationFailed ''Failed to generate intro audio'') \<and>
   fst (generate_dj_intro demo_env 0 1 demo_state) = TaskError ''Failed to generate intro audio'' \<and>
   segments (committed (snd (generate_dj_intro demo_env 0 1 demo_state))) = []"
proof -
  let ?md = "metadata_of (demo_upload 1 ''audio'' (Some ''/m/a.mp3''))"
  have h1: "ai_brain demo_env (ai_requests demo_state) = Failed" by code_simp
  have h2: "ai_brain garbled (ai_requests demo_state) = BadText" by code_simp
  have h3: "tts_brain demo_env = (\<lambda>n. None)" by (simp add: demo_env_def)
  have h4: "get_upload (committed demo_state) 1 \<noteq> None" by code_simp
  have h5: "first_segment (committed demo_state) 1 = None" by code_simp
  have p1: "fst (select_personality demo_env None demo_state) = ''professional''" by code_simp
  have f1: "generate_fallback_intro ?md ''professional'' =
              \<lparr>i_text = professional_template ?md, i_personality = ''professional''\<rparr>"
    by (simp add: generate_fallback_intro_def templates_def)
  have b1: "personalities_for (dt_hour (now demo_env)) = [''energetic'', ''professional'']"
    by code_simp
  have b2: "personalities_for (dt_hour (now garbled)) = [''energetic'', ''quirky'']"
    by code_simp
  have s: "segments (committed demo_state) = []" by code_simp
  note t1 = narration_and_audio_failure
    [where ev = demo_env and st = demo_state and md = ?md and i = 1 and r = 0]
  note t2 = narration_and_audio_failure
    [where ev = garbled and st = demo_state and md = ?md and i = 1 and r = 0]
  from t1 h1 p1 f1
  have g1: "fst (generate_intro demo_env ?md demo_state) =
              Some \<lparr>i_text = professional_template ?md, i_personality = ''professional''\<rparr>"
    by simp
  from t2 h2 f1
  have g2: "fst (generate_intro garbled ?md demo_state) =
              Some \<lparr>i_text = professional_template ?md, i_personality = ''professional''\<rparr>"
    by simp
  from t1 h3 h4 h5
  have k1: "fst (generate_dj_intro_body demo_env 1 demo_state) =
              Inl (GenerationFailed ''Failed to generate intro audio'')"
    by simp
  from t1 h3 h4 h5
  have k2: "fst (generate_dj_intro demo_env 0 1 demo_state) =
              TaskError ''Failed to generate intro audio'' \<and>
            committed (snd (generate_dj_intro demo_env 0 1 demo_state)) = committed demo_state"
    by simp
  from k2 s have k3: "segments (committed (snd (generate_dj_intro demo_env 0 1 demo_state))) = []"
    by simp
  from h1 h2 h3 h4 h5 g1 b1 g2 b2 k1 k2 k3 show ?thesis by blast
qed

text \<open>
  The claim as stated fails for the task: the fallback text is produced, but when the
  synthesis fails \<open>generate_dj_intro\<close> raises, and after its retries no Segment has
  been persisted for the item.
\<close>

theorem audio_failure_loses_text_counterexample:
  "(case fst (generate_intro demo_env
       (metadata_of (demo_upload 1 ''audio'' (Some ''/m/a.mp3''))) demo_state) of
      None \<Rightarrow> False | Some r \<Rightarrow> i_text r \<noteq> []) \<and>
   fst (generate_dj_intro_body demo_env 1 demo_state) =
     Inl (GenerationFailed ''Failed to generate intro audio'') \<and>
   first_segment (committed (snd (generate_dj_intro_body demo_env 1 demo_state))) 1 = None \<and>
   fst (generate_dj_intro demo_env 0 1 demo_state) = TaskError ''Failed to generate intro audio'' \<and>
   first_segment (committed (snd (generate_dj_intro demo_env 0 1 demo_state))) 1 = None"
  by code_simp

end
